theory Spec2Isabelle
  imports Complex_Main "HOL-Library.Word"
begin

unbundle bit_operations_syntax

section \<open>Errors\<close>

text \<open>The Python exceptions that the modelled functions can raise.\<close>

datatype error = RuntimeError | KeyError | NotImplementedError | ValueError | IndexError

section \<open>Casting to a tensor\<close>

text \<open>
  The data types of \<open>torch_dtype_dict\<close> (pytorch.py, lines 13 to 23), and the table
  itself as a map from names.
\<close>

datatype dtype = Int32 | Int64 | Float32 | Float64 | Complex64 | Complex128

definition torch_dtype_dict :: "string \<rightharpoonup> dtype" where
  "torch_dtype_dict =
     [''int'' \<mapsto> Int32, ''float'' \<mapsto> Float32, ''complex'' \<mapsto> Complex64,
      ''int32'' \<mapsto> Int32, ''int64'' \<mapsto> Int64, ''float32'' \<mapsto> Float32,
      ''float64'' \<mapsto> Float64, ''complex64'' \<mapsto> Complex64,
      ''complex128'' \<mapsto> Complex128]"

text \<open>
  A tensor: its dtype, its shape and its elements in row-major order. The elements are
  kept as exact numbers; what \<open>torch\<close> does to an element when it changes the dtype is
  the parameter \<open>conv\<close> of the functions below (from a dtype, to a dtype).
\<close>

record tensor =
  t_dtype :: dtype
  t_shape :: "nat list"
  t_elems :: "complex list"

type_synonym conversion = "dtype \<Rightarrow> dtype \<Rightarrow> complex \<Rightarrow> complex"

text \<open>The backend object: only its default dtype \<open>self.dtype\<close> matters here.\<close>

record backend =
  b_dtype :: dtype

text \<open>
  The \<open>dtype\<close> argument of \<open>cast\<close>: \<open>None\<close>, a Python type (known by its
  \<open>__name__\<close>), a \<open>torch.dtype\<close>, or anything else (a string, a \<open>np.dtype\<close>; known by
  its \<open>str\<close>).
\<close>

datatype dtype_arg = DNone | DPyType string | DTorch dtype | DOther string

definition dict_lookup :: "string \<Rightarrow> error + dtype" where
  "dict_lookup name = (case torch_dtype_dict name of None \<Rightarrow> Inl KeyError | Some d \<Rightarrow> Inr d)"

text \<open>Lines 85 to 90 of \<open>cast\<close>.\<close>

fun resolve_dtype :: "backend \<Rightarrow> dtype_arg \<Rightarrow> error + dtype" where
  "resolve_dtype self DNone = Inr (b_dtype self)"
| "resolve_dtype self (DPyType name) = dict_lookup name"
| "resolve_dtype self (DTorch d) = Inr d"
| "resolve_dtype self (DOther s) = dict_lookup s"

text \<open>
  The input \<open>x\<close> of \<open>cast\<close>: a tensor, a Python list (of tensors and of other
  objects), or any other object. What is no tensor is of the type \<open>'x\<close>.
\<close>

datatype 'x elem = ETensor tensor | EOther 'x

datatype 'x cast_input = XTensor tensor | XList "'x elem list" | XOther 'x

fun is_tensor :: "'x elem \<Rightarrow> bool" where
  "is_tensor (ETensor t) = True"
| "is_tensor (EOther y) = False"

fun the_tensors :: "'x elem list \<Rightarrow> tensor list" where
  "the_tensors [] = []"
| "the_tensors (ETensor t # es) = t # the_tensors es"
| "the_tensors (EOther y # es) = the_tensors es"

text \<open>\<open>x.to(dtype)\<close>: the tensor itself when it has the dtype already.\<close>

definition tensor_to :: "conversion \<Rightarrow> tensor \<Rightarrow> dtype \<Rightarrow> tensor" where
  "tensor_to conv t d =
     (if t_dtype t = d then t
      else t\<lparr>t_dtype := d, t_elems := map (conv (t_dtype t) d) (t_elems t)\<rparr>)"

text \<open>The type promotion of \<open>torch\<close> on the six dtypes: the higher category (integer,
  floating, complex) wins, and within the floating and complex categories the wider
  floating operand.\<close>

fun category :: "dtype \<Rightarrow> nat" where
  "category Int32 = 0" | "category Int64 = 0"
| "category Float32 = 1" | "category Float64 = 1"
| "category Complex64 = 2" | "category Complex128 = 2"

fun is_double :: "dtype \<Rightarrow> bool" where
  "is_double Float64 = True" | "is_double Complex128 = True" | "is_double d = False"

definition promote_types :: "dtype \<Rightarrow> dtype \<Rightarrow> dtype" where
  "promote_types a b =
     (let c = max (category a) (category b); w = is_double a \<or> is_double b
      in if c = 0 then (if a = Int64 \<or> b = Int64 then Int64 else Int32)
         else if c = 1 then (if w then Float64 else Float32)
         else (if w then Complex128 else Complex64))"

text \<open>\<open>torch.stack\<close>: a new leading dimension over tensors of one shape, in the
  promoted dtype; an error on the empty list and on tensors of different shapes.\<close>

definition stack :: "conversion \<Rightarrow> tensor list \<Rightarrow> error + tensor" where
  "stack conv ts =
     (case ts of
        [] \<Rightarrow> Inl RuntimeError
      | t # rest \<Rightarrow>
          if \<forall>u \<in> set rest. t_shape u = t_shape t then
            (let d = foldl promote_types (t_dtype t) (map t_dtype rest)
             in Inr \<lparr>t_dtype = d, t_shape = length ts # t_shape t,
                      t_elems = concat (map (\<lambda>u. t_elems (tensor_to conv u d)) ts)\<rparr>)
          else Inl RuntimeError)"

text \<open>
  \<open>torch.tensor(x, dtype=dtype)\<close> on an input that is no tensor: the parameter
  \<open>parse\<close> gives the shape and the elements that \<open>torch\<close> reads from \<open>x\<close> for the dtype,
  or the error it raises; the new tensor has the dtype asked for.
\<close>

type_synonym 'x parser = "'x cast_input \<Rightarrow> dtype \<Rightarrow> error + nat list \<times> complex list"

definition torch_tensor :: "'x parser \<Rightarrow> 'x cast_input \<Rightarrow> dtype \<Rightarrow> error + tensor" where
  "torch_tensor parse x d =
     (case parse x d of
        Inl e \<Rightarrow> Inl e
      | Inr (sh, vs) \<Rightarrow> Inr \<lparr>t_dtype = d, t_shape = sh, t_elems = vs\<rparr>)"

text \<open>\<open>x.clone()\<close>: a tensor of the same dtype, shape and elements.\<close>

definition clone :: "tensor \<Rightarrow> tensor" where
  "clone t = t"

text \<open>\<open>PyTorchBackend.cast\<close> (pytorch.py, lines 65 to 102).\<close>

definition cast ::
  "conversion \<Rightarrow> 'x parser \<Rightarrow> backend \<Rightarrow> 'x cast_input \<Rightarrow> dtype_arg \<Rightarrow> bool \<Rightarrow> error + tensor" where
  "cast conv parse self x dtype copy =
     (case resolve_dtype self dtype of
        Inl e \<Rightarrow> Inl e
      | Inr d \<Rightarrow>
          (case (case x of
                   XTensor t \<Rightarrow> Inr (tensor_to conv t d)
                 | XList es \<Rightarrow>
                     if list_all is_tensor es then stack conv (the_tensors es)
                     else torch_tensor parse x d
                 | XOther y \<Rightarrow> torch_tensor parse x d) of
             Inl e \<Rightarrow> Inl e
           | Inr r \<Rightarrow> if copy then Inr (clone r) else Inr r))"

text \<open>Whether the input is a list whose elements are all tensors.\<close>

fun is_tensor_list :: "'x cast_input \<Rightarrow> bool" where
  "is_tensor_list (XList es) = list_all is_tensor es"
| "is_tensor_list x = False"

section \<open>Norm of a density matrix\<close>

text \<open>
  The \<open>order\<close> argument of \<open>calculate_norm_density_matrix\<close>: a string such as
  \<open>"nuc"\<close> or \<open>"fro"\<close>, or a number.
\<close>

datatype order_arg = OrdStr string | OrdNum real

text \<open>\<open>torch.trace\<close>: the sum of the diagonal of a two-dimensional tensor, an error on
  any other shape.\<close>

definition trace :: "tensor \<Rightarrow> error + complex" where
  "trace t =
     (case t_shape t of
        [r, c] \<Rightarrow> Inr (\<Sum>i \<leftarrow> [0..<min r c]. t_elems t ! (i * c + i))
      | _ \<Rightarrow> Inl RuntimeError)"

text \<open>\<open>torch.norm(state, p=order)\<close> is the parameter \<open>tnorm\<close> of the model.\<close>

type_synonym torch_norm = "tensor \<Rightarrow> order_arg \<Rightarrow> error + complex"

text \<open>\<open>PyTorchBackend.calculate_norm_density_matrix\<close> (pytorch.py, lines 159 to 163).\<close>

definition calculate_norm_density_matrix ::
  "conversion \<Rightarrow> 'x parser \<Rightarrow> torch_norm \<Rightarrow> backend \<Rightarrow> 'x cast_input \<Rightarrow> order_arg
     \<Rightarrow> error + complex" where
  "calculate_norm_density_matrix conv parse tnorm self state order =
     (case cast conv parse self state DNone False of
        Inl e \<Rightarrow> Inl e
      | Inr state' \<Rightarrow>
          if order = OrdStr ''nuc'' then trace state'
          else tnorm state' order)"

text \<open>A square matrix as a tensor: shape \<open>(n, n)\<close> with \<open>n * n\<close> elements.\<close>

definition is_square_matrix :: "tensor \<Rightarrow> nat \<Rightarrow> bool" where
  "is_square_matrix t n \<longleftrightarrow> t_shape t = [n, n] \<and> length (t_elems t) = n * n"

text \<open>The sum of the diagonal entries of a square matrix of dimension \<open>n\<close>.\<close>

definition diagonal_sum :: "tensor \<Rightarrow> nat \<Rightarrow> complex" where
  "diagonal_sum t n = (\<Sum>i \<leftarrow> [0..<n]. t_elems t ! (i * n + i))"

section \<open>Sample conversion of the PyTorch backend\<close>

text \<open>
  \<open>PyTorchBackend.samples_to_decimal\<close> and \<open>PyTorchBackend.samples_to_binary\<close>
  (src/src/qibo/backends/pytorch.py, lines 136 to 147) cast their input with
  \<open>self.cast(samples, dtype="int32")\<close> and compute on \<open>torch.int32\<close> tensors. An
  \<open>int32\<close> is a 32-bit word read in two's complement. A tensor keeps its elements as exact
  numbers: an element of an \<open>int32\<close> tensor is read as the word of its integer value, and
  a word is written back as the integer it stands for.
\<close>

type_synonym int32 = "32 word"

definition to_int32 :: "complex \<Rightarrow> int32" where
  "to_int32 z = word_of_int \<lfloor>Re z\<rfloor>"

definition of_int32 :: "int32 \<Rightarrow> complex" where
  "of_int32 w = of_int (sint w)"

text \<open>\<open>torch.arange(nqubits - 1, -1, -1, dtype=torch.int32)\<close>: the values
  \<open>nqubits - 1, ..., 1, 0\<close>, no value when \<open>nqubits = 0\<close>, and a \<open>RuntimeError\<close> when
  \<open>nqubits < 0\<close>, where the bounds do not fit the negative step.\<close>

definition arange_desc :: "int \<Rightarrow> error + int32 list" where
  "arange_desc nqubits =
     (if nqubits < 0 then Inl RuntimeError
      else Inr (map word_of_nat (rev [0..<nat nqubits])))"

text \<open>\<open>2**qrange\<close> on an \<open>int32\<close> tensor: the power is taken in \<open>int32\<close>
  arithmetic, so it wraps around.\<close>

definition pow2_int32 :: "int32 \<Rightarrow> int32" where
  "pow2_int32 q = 2 ^ nat (sint q)"

text \<open>The rows of a tensor along its last dimension: \<open>count\<close> rows of \<open>len\<close> elements
  of the elements in row-major order.\<close>

fun rows_of :: "nat \<Rightarrow> nat \<Rightarrow> 'a list \<Rightarrow> 'a list list" where
  "rows_of 0 len xs = []"
| "rows_of (Suc count) len xs = take len xs # rows_of count len (drop len xs)"

text \<open>
  \<open>torch.matmul(samples, qrange)\<close> with a column \<open>qrange\<close> of shape \<open>(n, 1)\<close> and dtype
  \<open>int32\<close>: both operands must have the same dtype, \<open>samples\<close> must have a dimension, and
  its last dimension must be \<open>n\<close>; every row of \<open>samples\<close> along the last dimension is
  multiplied into the column, in \<open>int32\<close> arithmetic, and the last dimension becomes 1.
\<close>

definition dot :: "'a::comm_semiring_1 list \<Rightarrow> 'a list \<Rightarrow> 'a" where
  "dot row v = sum_list (map2 (*) row v)"

definition matmul_col :: "tensor \<Rightarrow> int32 list \<Rightarrow> error + tensor" where
  "matmul_col t v =
     (if t_dtype t \<noteq> Int32 \<or> t_shape t = [] \<or> last (t_shape t) \<noteq> length v
      then Inl RuntimeError
      else Inr \<lparr>t_dtype = Int32, t_shape = butlast (t_shape t) @ [1],
                t_elems = map (\<lambda>row. of_int32 (dot (map to_int32 row) v))
                  (rows_of (prod_list (butlast (t_shape t))) (length v) (t_elems t))\<rparr>)"

text \<open>\<open>x.squeeze(1)\<close>: dimension 1 is removed when its size is 1; a tensor of fewer than
  two dimensions has no dimension 1, an \<open>IndexError\<close>.\<close>

definition squeeze1 :: "tensor \<Rightarrow> error + tensor" where
  "squeeze1 t =
     (case t_shape t of
        d0 # d1 # rest \<Rightarrow> Inr (if d1 = 1 then t\<lparr>t_shape := d0 # rest\<rparr> else t)
      | _ \<Rightarrow> Inl IndexError)"

text \<open>\<open>PyTorchBackend.samples_to_decimal\<close> (pytorch.py, lines 136 to 140).\<close>

definition samples_to_decimal ::
  "conversion \<Rightarrow> 'x parser \<Rightarrow> backend \<Rightarrow> 'x cast_input \<Rightarrow> int \<Rightarrow> error + tensor" where
  "samples_to_decimal conv parse self samples nqubits =
     (case cast conv parse self samples (DOther ''int32'') False of
        Inl e \<Rightarrow> Inl e
      | Inr samples' \<Rightarrow>
          (case arange_desc nqubits of
             Inl e \<Rightarrow> Inl e
           | Inr qrange \<Rightarrow>
               (case matmul_col samples' (map pow2_int32 qrange) of
                  Inl e \<Rightarrow> Inl e
                | Inr r \<Rightarrow> squeeze1 r)))"

text \<open>
  One element of \<open>(samples[:, None] >> qrange) % 2\<close>: \<open>>>\<close> on an \<open>int32\<close> tensor is the
  arithmetic shift (a shift by 31 or more leaves the sign), and \<open>% 2\<close> is the remainder
  with the sign of the divisor, as \<open>mod\<close> on \<open>int\<close>.
\<close>

definition shift_mod2 :: "int32 \<Rightarrow> int32 \<Rightarrow> complex" where
  "shift_mod2 x q = of_int (sint (signed_drop_bit (nat (sint q)) x) mod 2)"

text \<open>The broadcast of one row along the last dimension against \<open>qrange\<close>: a row of one
  element is shifted by every element of \<open>qrange\<close>, a \<open>qrange\<close> of one element shifts
  every element of the row, and otherwise the two are shifted element by element.\<close>

fun shift_row :: "int32 list \<Rightarrow> int32 list \<Rightarrow> complex list" where
  "shift_row [x] qrange = map (shift_mod2 x) qrange"
| "shift_row row [q] = map (\<lambda>x. shift_mod2 x q) row"
| "shift_row row qrange = map2 shift_mod2 row qrange"

text \<open>
  \<open>(samples[:, None] >> qrange) % 2\<close>: the indexing needs a first dimension (an
  \<open>IndexError\<close> on a tensor without dimensions) and puts a dimension of size 1 after it;
  the last dimension of the result and the \<open>n\<close> elements of \<open>qrange\<close> must be equal, or
  one of them 1 (a \<open>RuntimeError\<close> otherwise).
\<close>

definition shift_broadcast :: "tensor \<Rightarrow> int32 list \<Rightarrow> error + tensor" where
  "shift_broadcast t qrange =
     (case t_shape t of
        [] \<Rightarrow> Inl IndexError
      | d0 # rest \<Rightarrow>
          (let shape' = d0 # 1 # rest; len = last shape'; n = length qrange
           in if len = n \<or> len = 1 \<or> n = 1 then
                Inr \<lparr>t_dtype = Int32,
                     t_shape = butlast shape' @ [if len = 1 then n else len],
                     t_elems = concat (map (\<lambda>row. shift_row (map to_int32 row) qrange)
                       (rows_of (prod_list (butlast shape')) len (t_elems t)))\<rparr>
              else Inl RuntimeError))"

text \<open>\<open>PyTorchBackend.samples_to_binary\<close> (pytorch.py, lines 142 to 147);
  \<open>samples.int()\<close> is the conversion to \<open>int32\<close>.\<close>

definition samples_to_binary ::
  "conversion \<Rightarrow> 'x parser \<Rightarrow> backend \<Rightarrow> 'x cast_input \<Rightarrow> int \<Rightarrow> error + tensor" where
  "samples_to_binary conv parse self samples nqubits =
     (case cast conv parse self samples (DOther ''int32'') False of
        Inl e \<Rightarrow> Inl e
      | Inr samples' \<Rightarrow>
          (case arange_desc nqubits of
             Inl e \<Rightarrow> Inl e
           | Inr qrange \<Rightarrow> shift_broadcast (tensor_to conv samples' Int32) qrange))"

text \<open>The base-2 value of a row of bits, first column most significant, as the
  specification words it.\<close>

definition base2_value :: "int list \<Rightarrow> int" where
  "base2_value row = foldl (\<lambda>acc b. 2 * acc + b) 0 row"

text \<open>The integer values of the elements of a row.\<close>

definition int_row :: "complex list \<Rightarrow> int list" where
  "int_row row = map (\<lambda>z. \<lfloor>Re z\<rfloor>) row"

text \<open>An \<open>int32\<close> tensor of shape \<open>(m, nqubits)\<close> with entries in \<open>{0, 1}\<close>, and the
  base-2 values of its rows.\<close>

definition is_bit_matrix :: "tensor \<Rightarrow> nat \<Rightarrow> int \<Rightarrow> bool" where
  "is_bit_matrix t m nqubits \<longleftrightarrow>
     t_dtype t = Int32 \<and> 0 \<le> nqubits \<and> t_shape t = [m, nat nqubits] \<and>
     length (t_elems t) = m * nat nqubits \<and> (\<forall>z \<in> set (t_elems t). z = 0 \<or> z = 1)"

definition row_values :: "tensor \<Rightarrow> nat \<Rightarrow> int \<Rightarrow> complex list" where
  "row_values t m nqubits =
     map (\<lambda>row. of_int (base2_value (int_row row))) (rows_of m (nat nqubits) (t_elems t))"

text \<open>An \<open>int32\<close> tensor of shape \<open>(m,)\<close> of integers \<open>d\<close> with
  \<open>0 \<le> d < 2 ^ nqubits\<close>; an integer of an \<open>int32\<close> tensor is below \<open>2 ^ 31\<close>.\<close>

definition is_index_vector :: "tensor \<Rightarrow> nat \<Rightarrow> int \<Rightarrow> bool" where
  "is_index_vector t m nqubits \<longleftrightarrow>
     t_dtype t = Int32 \<and> t_shape t = [m] \<and> length (t_elems t) = m \<and>
     (\<forall>z \<in> set (t_elems t). z = of_int \<lfloor>Re z\<rfloor> \<and> 0 \<le> \<lfloor>Re z\<rfloor> \<and>
        \<lfloor>Re z\<rfloor> < 2 ^ nat nqubits \<and> \<lfloor>Re z\<rfloor> < 2 ^ 31)"

text \<open>The dot product with the powers of two, as a Horner scheme in the element type.\<close>

definition horner :: "'a::comm_semiring_1 list \<Rightarrow> 'a" where
  "horner row = foldl (\<lambda>acc b. 2 * acc + b) 0 row"

section \<open>Gates and their matrices\<close>

text \<open>
  The tests of the gate fusion (src/src/qibo/tests/test_fusion.py) compare unitaries with
  \<open>numpy\<close> arrays of shape \<open>(2, 2)\<close> and \<open>(4, 4)\<close>. A one-qubit matrix is indexed by
  a row bit and a column bit, a two-qubit matrix by a pair of bits each, the first qubit
  most significant, as the rows of \<open>np.kron\<close> are.
\<close>

type_synonym mat2 = "bool \<Rightarrow> bool \<Rightarrow> complex"
type_synonym mat4 = "bool \<times> bool \<Rightarrow> bool \<times> bool \<Rightarrow> complex"

definition bit_index :: "bool \<Rightarrow> nat" where
  "bit_index b = (if b then 1 else 0)"

text \<open>\<open>np.array\<close> of the rows of a \<open>2 \<times> 2\<close> and of a \<open>4 \<times> 4\<close> matrix.\<close>

definition array2 :: "complex list list \<Rightarrow> mat2" where
  "array2 rows = (\<lambda>i j. rows ! bit_index i ! bit_index j)"

definition array4 :: "complex list list \<Rightarrow> mat4" where
  "array4 rows = (\<lambda>(i0, i1) (j0, j1).
     rows ! (2 * bit_index i0 + bit_index i1) ! (2 * bit_index j0 + bit_index j1))"

text \<open>The matrix product \<open>@\<close> and \<open>np.kron\<close>.\<close>

definition matmul2 :: "mat2 \<Rightarrow> mat2 \<Rightarrow> mat2" where
  "matmul2 a b = (\<lambda>i j. a i False * b False j + a i True * b True j)"

definition matmul4 :: "mat4 \<Rightarrow> mat4 \<Rightarrow> mat4" where
  "matmul4 a b = (\<lambda>i j.
     a i (False, False) * b (False, False) j + a i (False, True) * b (False, True) j +
     a i (True, False) * b (True, False) j + a i (True, True) * b (True, True) j)"

definition kron :: "mat2 \<Rightarrow> mat2 \<Rightarrow> mat4" where
  "kron a b = (\<lambda>(i0, i1) (j0, j1). a i0 j0 * b i1 j1)"

definition identity2 :: mat2 where
  "identity2 = (\<lambda>i j. if i = j then 1 else 0)"

text \<open>
  Modelled from the spec: the matrices of the gates (\<open>qibo.matrices\<close>) are not under
  src/. These are the matrices that the tests of the fusion write out as \<open>numpy\<close>
  arrays for the gates they use.
\<close>

definition X_matrix :: mat2 where
  "X_matrix = array2 [[0, 1], [1, 0]]"

definition H_matrix :: mat2 where
  "H_matrix = array2 [[1 / sqrt 2, 1 / sqrt 2], [1 / sqrt 2, - 1 / sqrt 2]]"

definition CNOT_matrix :: mat4 where
  "CNOT_matrix = array4 [[1, 0, 0, 0], [0, 1, 0, 0], [0, 0, 0, 1], [0, 0, 1, 0]]"

definition SWAP_matrix :: mat4 where
  "SWAP_matrix = array4 [[1, 0, 0, 0], [0, 0, 1, 0], [0, 1, 0, 0], [0, 0, 0, 1]]"

definition fSim_matrix :: "real \<Rightarrow> real \<Rightarrow> mat4" where
  "fSim_matrix theta phi = array4
     [[1, 0, 0, 0],
      [0, cos theta, - \<i> * sin theta, 0],
      [0, - \<i> * sin theta, cos theta, 0],
      [0, 0, 0, exp (- \<i> * phi)]]"

text \<open>
  Modelled from the spec: the gate classes (\<open>qibo.gates\<close>) are not under src/. The
  claims are about circuits of one-qubit gates, two-qubit gates and callback gates: a gate
  is a unitary on one qubit, a unitary on two qubits (for a controlled gate the control
  and the target), or a callback gate, which acts on no qubit and records a value of the
  callback with the given number.
\<close>

datatype gate = One nat mat2 | Two nat nat mat4 | CallbackGate nat

fun qubits :: "gate \<Rightarrow> nat list" where
  "qubits (One q u) = [q]"
| "qubits (Two a b u) = [a, b]"
| "qubits (CallbackGate k) = []"

definition X :: "nat \<Rightarrow> gate" where "X q = One q X_matrix"
definition H :: "nat \<Rightarrow> gate" where "H q = One q H_matrix"
definition CNOT :: "nat \<Rightarrow> nat \<Rightarrow> gate" where "CNOT a b = Two a b CNOT_matrix"
definition SWAP :: "nat \<Rightarrow> nat \<Rightarrow> gate" where "SWAP a b = Two a b SWAP_matrix"
definition fSim :: "nat \<Rightarrow> nat \<Rightarrow> real \<Rightarrow> real \<Rightarrow> gate" where
  "fSim a b theta phi = Two a b (fSim_matrix theta phi)"

text \<open>
  Modelled from the spec: the operator \<open>@\<close> of gates (\<open>Gate.__matmul__\<close>) is not under
  src/. The tests \<open>test_one_qubit_gate_multiplication\<close> and
  \<open>test_two_qubit_gate_multiplication\<close> fix what it does on gates that act on qubits:
  for two gates on the same qubits the result is a gate on these qubits whose unitary is
  the matrix of the first times the matrix of the second; when the target qubits do not
  agree, \<open>NotImplementedError\<close> is raised. No test composes two callback gates; what
  \<open>@\<close> gives for them is the parameter \<open>special\<close>.
\<close>

fun gate_matmul :: "(nat \<Rightarrow> nat \<Rightarrow> error + gate) \<Rightarrow> gate \<Rightarrow> gate \<Rightarrow> error + gate" where
  "gate_matmul special (One q u) (One q' u') =
     (if q = q' then Inr (One q (matmul2 u u')) else Inl NotImplementedError)"
| "gate_matmul special (Two a b u) (Two a' b' u') =
     (if a = a' \<and> b = b' then Inr (Two a b (matmul4 u u')) else Inl NotImplementedError)"
| "gate_matmul special (CallbackGate k) (CallbackGate k') = special k k'"
| "gate_matmul special g g' = Inl NotImplementedError"

section \<open>Fusion groups\<close>

text \<open>
  Modelled from the spec: the class \<open>FusionGroup\<close> of \<open>qibo.tensorflow.fusion\<close> is not
  under src/. The specification describes gate fusion as merging sequential one- and
  two-qubit gate unitaries into larger combined unitary blocks; the tests
  \<open>test_from_queue_single_group\<close>, \<open>test_from_queue_two_groups\<close> and
  \<open>test_fused_gate_calculation\<close> fix the fields of a group and what \<open>from_queue\<close> and
  \<open>gates\<close> give on three queues. A group acts on at most two qubits \<open>qubit0\<close> and
  \<open>qubit1\<close>; \<open>gates0\<close> and \<open>gates1\<close> hold the one-qubit gates on the two qubits, split
  at the two-qubit gates of the group (one more list than two-qubit gates);
  \<open>special_gate\<close> is a gate that acts on no qubit and fills a group alone.
\<close>

record fusion_group =
  qubit0 :: "nat option"
  qubit1 :: "nat option"
  gates0 :: "gate list list"
  gates1 :: "gate list list"
  two_qubit_gates :: "gate list"
  special_gate :: "gate option"
  completed :: bool

text \<open>Modelled from the spec: the group that \<open>FusionGroup()\<close> creates (not under
  src/), with one empty list of one-qubit gates for each qubit.\<close>

definition new_group :: fusion_group where
  "new_group = \<lparr>qubit0 = None, qubit1 = None, gates0 = [[]], gates1 = [[]],
                 two_qubit_gates = [], special_gate = None, completed = False\<rparr>"

text \<open>Modelled from the spec: the step \<open>gs[-1].append(g)\<close> of \<open>FusionGroup.add\<close>
  (not under src/) on a list of lists.\<close>

definition append_last :: "'a list list \<Rightarrow> 'a \<Rightarrow> 'a list list" where
  "append_last gs g = (case gs of [] \<Rightarrow> [[g]] | _ \<Rightarrow> butlast gs @ [last gs @ [g]])"

text \<open>
  Modelled from the spec: \<open>FusionGroup.add\<close> is not under src/. A one-qubit gate goes
  to the last list of its qubit, taking a free qubit of the group if need be; a two-qubit
  gate on the two qubits of the group starts new lists of one-qubit gates, as
  \<open>test_from_queue_single_group\<close> and \<open>test_from_queue_two_groups\<close> show; a gate on no
  qubit fills an empty group alone. The result is \<open>None\<close> when the gate does not fit
  (a \<open>ValueError\<close> that \<open>from_queue\<close> catches).
\<close>

fun add :: "fusion_group \<Rightarrow> gate \<Rightarrow> fusion_group option" where
  "add grp (CallbackGate k) =
     (if completed grp \<or> qubit0 grp \<noteq> None \<or> special_gate grp \<noteq> None then None
      else Some (grp\<lparr>special_gate := Some (CallbackGate k), completed := True\<rparr>))"
| "add grp (One q u) =
     (if completed grp then None
      else if qubit0 grp = None \<or> qubit0 grp = Some q then
        Some (grp\<lparr>qubit0 := Some q, gates0 := append_last (gates0 grp) (One q u)\<rparr>)
      else if qubit1 grp = None \<or> qubit1 grp = Some q then
        Some (grp\<lparr>qubit1 := Some q, gates1 := append_last (gates1 grp) (One q u)\<rparr>)
      else None)"
| "add grp (Two a b u) =
     (if completed grp then None
      else
        (case (if qubit0 grp = None then Some (a, b)
               else if qubit1 grp = None then
                 (if qubit0 grp = Some a then Some (a, b)
                  else if qubit0 grp = Some b then Some (b, a)
                  else None)
               else Some (the (qubit0 grp), the (qubit1 grp))) of
           None \<Rightarrow> None
         | Some (q0, q1) \<Rightarrow>
             if {q0, q1} \<noteq> {a, b} then None
             else Some (grp\<lparr>qubit0 := Some q0, qubit1 := Some q1,
                            gates0 := gates0 grp @ [[]], gates1 := gates1 grp @ [[]],
                            two_qubit_gates := two_qubit_gates grp @ [Two a b u]\<rparr>)))"

text \<open>Modelled from the spec: \<open>Gate.commutes\<close> is not under src/. Two gates commute
  for the fusion when neither is a callback gate and they share no qubit.\<close>

fun is_callback :: "gate \<Rightarrow> bool" where
  "is_callback (CallbackGate k) = True"
| "is_callback g = False"

definition commutes :: "gate \<Rightarrow> gate \<Rightarrow> bool" where
  "commutes g h \<longleftrightarrow>
     \<not> is_callback g \<and> \<not> is_callback h \<and> set (qubits g) \<inter> set (qubits h) = {}"

text \<open>
  Modelled from the spec: the inner loop of \<open>FusionGroup.from_queue\<close> (not under src/),
  one pass over the remaining queue for one group: a gate joins the group when it
  commutes with every gate that was left behind before it and the group can take it;
  every other gate is left behind, in the order of the queue.
\<close>

fun fill :: "fusion_group \<Rightarrow> gate list \<Rightarrow> gate list \<Rightarrow> fusion_group \<times> gate list" where
  "fill grp blocked [] = (grp, blocked)"
| "fill grp blocked (g # gs) =
     (if completed grp then (grp, blocked @ g # gs)
      else if list_all (commutes g) blocked then
        (case add grp g of
           Some grp' \<Rightarrow> fill grp' blocked gs
         | None \<Rightarrow> fill grp (blocked @ [g]) gs)
      else fill grp (blocked @ [g]) gs)"

text \<open>
  Modelled from the spec: \<open>FusionGroup.from_queue\<close> is not under src/. Groups are filled one after the other, each from the gates
  that the groups before it left behind, until no gate remains. The first gate of the
  remaining queue always joins the new group, so the queue gets shorter.
\<close>

function from_queue :: "gate list \<Rightarrow> fusion_group list" where
  "from_queue [] = []"
| "from_queue (g # gs) =
     (case fill new_group [] (g # gs) of
        (grp, remaining) \<Rightarrow> grp\<lparr>completed := True\<rparr> # from_queue remaining)"
  by pat_completeness auto
termination
proof (relation "measure length")
  show "wf (measure length)" by simp
next
  fix g :: gate and gs :: "gate list" and grp remaining
  assume r: "(grp, remaining) = fill new_group [] (g # gs)"
  have le: "length (snd (fill h bl xs)) \<le> length bl + length xs" for h bl xs
  proof (induction xs arbitrary: h bl)
    case Nil
    show ?case by simp
  next
    case (Cons a xs)
    have 1: "length (snd (fill h (bl @ [a]) xs)) \<le> Suc (length bl + length xs)"
      using Cons.IH [of h "bl @ [a]"] by simp
    have 2: "length (snd (fill h' bl xs)) \<le> Suc (length bl + length xs)" for h'
      using Cons.IH [of h' bl] by simp
    show ?case using 1 2 by (auto split: option.splits)
  qed
  obtain grp' where a: "add new_group g = Some grp'"
    by (cases g) (auto simp add: new_group_def)
  have "\<not> completed new_group" by (simp add: new_group_def)
  then have "fill new_group [] (g # gs) = fill grp' [] gs"
    using a by simp
  then have "length remaining \<le> length gs"
    using le [of grp' "[]" gs] r by (metis list.size(3) add_0 snd_conv)
  then show "(remaining, g # gs) \<in> measure length" by simp
qed

text \<open>Modelled from the spec: the fused unitary of a group (\<open>FusionGroup.calculate\<close>,
  not under src/) is built from the matrix of a one-qubit gate and the product of the matrices of a list of
  one-qubit gates in reverse order of application (the gate applied last is the left
  factor).\<close>

fun matrix1 :: "gate \<Rightarrow> mat2" where
  "matrix1 (One q u) = u"
| "matrix1 g = identity2"

definition one_qubit_product :: "gate list \<Rightarrow> mat2" where
  "one_qubit_product gs = foldl (\<lambda>m g. matmul2 (matrix1 g) m) identity2 gs"

text \<open>Modelled from the spec: a part of \<open>FusionGroup.calculate\<close> (not under src/),
  the matrix of a two-qubit gate on the qubits of the group in their order: a gate
  on \<open>(qubit1, qubit0)\<close> has the two qubits of its matrix exchanged.\<close>

definition swap_qubits :: "mat4 \<Rightarrow> mat4" where
  "swap_qubits u = (\<lambda>(i0, i1) (j0, j1). u (i1, i0) (j1, j0))"

fun matrix2 :: "nat \<Rightarrow> gate \<Rightarrow> mat4" where
  "matrix2 q0 (Two a b u) = (if a = q0 then u else swap_qubits u)"
| "matrix2 q0 g = kron identity2 identity2"

text \<open>Modelled from the spec: a part of \<open>FusionGroup.calculate\<close> (not under src/),
  the unitary of a group on two qubits, as \<open>test_fused_gate_calculation\<close> shows it: after the one-qubit gates before the first
  two-qubit gate, every two-qubit gate and the one-qubit gates that follow it multiply
  from the left.\<close>

fun fused_matrix :: "nat \<Rightarrow> gate list list \<Rightarrow> gate list list \<Rightarrow> gate list \<Rightarrow> mat4 \<Rightarrow> mat4" where
  "fused_matrix q0 (s0 # r0) (s1 # r1) (t # ts) m =
     fused_matrix q0 r0 r1 ts
       (matmul4 (matmul4 (kron (one_qubit_product s0) (one_qubit_product s1)) (matrix2 q0 t)) m)"
| "fused_matrix q0 r0 r1 ts m = m"

text \<open>Modelled from the spec: \<open>FusionGroup.gates\<close> is not under src/. These are the
  gates that replace the group in the fused circuit: the special gate; or one gate with the
  fused unitary on the qubits of the group.\<close>

definition calculate :: "fusion_group \<Rightarrow> gate list" where
  "calculate grp =
     (case special_gate grp of
        Some g \<Rightarrow> [g]
      | None \<Rightarrow>
          (case (qubit0 grp, qubit1 grp, gates0 grp, gates1 grp) of
             (Some q0, Some q1, s0 # r0, s1 # r1) \<Rightarrow>
               [Two q0 q1 (fused_matrix q0 r0 r1 (two_qubit_gates grp)
                  (kron (one_qubit_product s0) (one_qubit_product s1)))]
           | (Some q0, None, s0 # r0, _) \<Rightarrow> [One q0 (one_qubit_product s0)]
           | _ \<Rightarrow> []))"

text \<open>Modelled from the spec: \<open>Circuit.fuse\<close> is not under src/. The fused circuit
  is the circuit of the gates of the groups of the queue.\<close>

definition fuse :: "gate list \<Rightarrow> gate list" where
  "fuse queue = concat (map calculate (from_queue queue))"

section \<open>Execution of a circuit\<close>

text \<open>
  Modelled from the spec: the execution of a circuit (\<open>Circuit.__call__\<close>) is not under
  src/. A state vector gives an amplitude to every assignment of a bit to the qubits. A gate
  on one or two qubits multiplies its matrix into the state on these qubits; a callback
  gate leaves the state and records the value of its callback on it. The callbacks are
  the parameter \<open>cb\<close>: the value of callback \<open>k\<close> on a state.
\<close>

type_synonym state = "(nat \<Rightarrow> bool) \<Rightarrow> complex"

definition apply1 :: "mat2 \<Rightarrow> nat \<Rightarrow> state \<Rightarrow> state" where
  "apply1 u q psi = (\<lambda>b. u (b q) False * psi (b(q := False)) + u (b q) True * psi (b(q := True)))"

definition apply2 :: "mat4 \<Rightarrow> nat \<Rightarrow> nat \<Rightarrow> state \<Rightarrow> state" where
  "apply2 u q0 q1 psi = (\<lambda>b.
     u (b q0, b q1) (False, False) * psi (b(q0 := False, q1 := False)) +
     u (b q0, b q1) (False, True) * psi (b(q0 := False, q1 := True)) +
     u (b q0, b q1) (True, False) * psi (b(q0 := True, q1 := False)) +
     u (b q0, b q1) (True, True) * psi (b(q0 := True, q1 := True)))"

fun apply_gate :: "(nat \<Rightarrow> state \<Rightarrow> real) \<Rightarrow> state \<times> real list \<Rightarrow> gate \<Rightarrow> state \<times> real list" where
  "apply_gate cb (psi, vals) (One q u) = (apply1 u q psi, vals)"
| "apply_gate cb (psi, vals) (Two a b u) = (apply2 u a b psi, vals)"
| "apply_gate cb (psi, vals) (CallbackGate k) = (psi, vals @ [cb k psi])"

definition execute :: "(nat \<Rightarrow> state \<Rightarrow> real) \<Rightarrow> gate list \<Rightarrow> state \<times> real list \<Rightarrow> state \<times> real list" where
  "execute cb circuit s = foldl (apply_gate cb) s circuit"

text \<open>Modelled from the spec: the gates that a circuit accepts (\<open>Circuit.add\<close>, not
  under src/). A two-qubit gate acts on two different qubits.\<close>

fun valid_gate :: "gate \<Rightarrow> bool" where
  "valid_gate (Two a b u) = (a \<noteq> b)"
| "valid_gate g = True"

section \<open>The gates of a group in order, and the invariant of a group\<close>

text \<open>
  The gates of a group in the order in which the fused unitary multiplies them: the
  one-qubit gates before the first two-qubit gate, then every two-qubit gate followed by
  the one-qubit gates after it, on \<open>qubit0\<close> before \<open>qubit1\<close>.
\<close>

fun rest_gates :: "gate list list \<Rightarrow> gate list list \<Rightarrow> gate list \<Rightarrow> gate list" where
  "rest_gates (s0 # r0) (s1 # r1) (t # ts) = t # s0 @ s1 @ rest_gates r0 r1 ts"
| "rest_gates r0 r1 ts = []"

definition group_gates :: "fusion_group \<Rightarrow> gate list" where
  "group_gates grp =
     (case special_gate grp of
        Some g \<Rightarrow> [g]
      | None \<Rightarrow>
          (case (gates0 grp, gates1 grp) of
             (s0 # r0, s1 # r1) \<Rightarrow> s0 @ s1 @ rest_gates r0 r1 (two_qubit_gates grp)
           | _ \<Rightarrow> []))"

text \<open>
  What \<open>add\<close> keeps true of a group: a group with a special gate is completed; in any
  other group the lists of one-qubit gates are one more than the two-qubit gates, the gates
  of \<open>gates0\<close> act on \<open>qubit0\<close>, those of \<open>gates1\<close> on \<open>qubit1\<close>, the two-qubit gates
  on both, and the two qubits differ.
\<close>

fun on_qubit :: "nat option \<Rightarrow> gate \<Rightarrow> bool" where
  "on_qubit (Some q) (One q' u) = (q' = q)"
| "on_qubit qo g = False"

fun on_pair :: "nat option \<Rightarrow> nat option \<Rightarrow> gate \<Rightarrow> bool" where
  "on_pair (Some q0) (Some q1) (Two a b u) = ((a = q0 \<and> b = q1) \<or> (a = q1 \<and> b = q0))"
| "on_pair qo qo' g = False"

definition group_inv :: "fusion_group \<Rightarrow> bool" where
  "group_inv grp \<longleftrightarrow>
     (case special_gate grp of
        Some g \<Rightarrow> completed grp
      | None \<Rightarrow>
          length (gates0 grp) = Suc (length (two_qubit_gates grp)) \<and>
          length (gates1 grp) = Suc (length (two_qubit_gates grp)) \<and>
          list_all (list_all (on_qubit (qubit0 grp))) (gates0 grp) \<and>
          list_all (list_all (on_qubit (qubit1 grp))) (gates1 grp) \<and>
          list_all (on_pair (qubit0 grp) (qubit1 grp)) (two_qubit_gates grp) \<and>
          (qubit0 grp = None \<longrightarrow> qubit1 grp = None) \<and>
          (qubit0 grp \<noteq> None \<longrightarrow> qubit0 grp \<noteq> qubit1 grp))"

section \<open>Properties of the sample conversion\<close>

lemma dot_snoc: "length xs = length ys \<Longrightarrow> dot (xs @ [x]) (ys @ [y]) = dot xs ys + x * y"
  by (simp add: dot_def)

lemma dot_scale: "dot xs (map (\<lambda>k. 2 * f k) ks) = 2 * dot xs (map f ks)"
proof (induction xs arbitrary: ks)
  case Nil then show ?case by (simp add: dot_def)
next
  case (Cons x xs) then show ?case
    by (cases ks) (simp_all add: dot_def algebra_simps)
qed

lemma rev_upt_Suc_map: "rev [0..<Suc n] = map Suc (rev [0..<n]) @ [0]"
proof -
  have "[0..<Suc n] = 0 # map Suc [0..<n]"
    by (simp only: map_Suc_upt) (simp add: upt_conv_Cons)
  then show ?thesis by (simp only: rev.simps rev_map)
qed

lemma dot_pows: "length xs = n \<Longrightarrow> dot xs (map (\<lambda>k. 2 ^ k) (rev [0..<n])) = horner xs"
proof (induction xs arbitrary: n rule: rev_induct)
  case Nil then show ?case by (simp add: dot_def horner_def)
next
  case (snoc x xs)
  then obtain m where n: "n = Suc m" and m: "length xs = m" by (cases n) auto
  have "dot (xs @ [x]) (map (\<lambda>k. 2 ^ k) (rev [0..<Suc m]))
      = dot (xs @ [x]) (map (\<lambda>k. 2 * 2 ^ k) (rev [0..<m]) @ [1])"
    by (simp only: rev_upt_Suc_map) (simp add: comp_def)
  also have "\<dots> = dot xs (map (\<lambda>k. 2 * 2 ^ k) (rev [0..<m])) + x"
    using m by (simp add: dot_snoc)
  also have "\<dots> = 2 * horner xs + x"
    using snoc.IH [OF m] by (simp add: dot_scale)
  finally show ?case by (simp add: n horner_def)
qed

lemma horner_snoc: "horner (xs @ [x]) = 2 * horner xs + x"
  by (simp add: horner_def)

lemma base2_value_snoc: "base2_value (xs @ [x]) = 2 * base2_value xs + x"
  by (simp add: base2_value_def)

lemma base2_value_bounds:
  "\<forall>b \<in> set row. b = 0 \<or> b = 1 \<Longrightarrow> 0 \<le> base2_value row \<and> base2_value row < 2 ^ length row"
proof (induction row rule: rev_induct)
  case Nil then show ?case by (simp add: base2_value_def)
next
  case (snoc x xs)
  then have "0 \<le> base2_value xs" "base2_value xs < 2 ^ length xs" "x = 0 \<or> x = 1" by auto
  then show ?case by (auto simp add: base2_value_snoc)
qed

lemma sint_small: "0 \<le> v \<Longrightarrow> v < 2 ^ 31 \<Longrightarrow> sint (word_of_int v :: int32) = v"
  by (simp add: sint_sbintrunc' signed_take_bit_int_eq_self)

lemma bits_of_base2_value:
  "\<forall>b \<in> set row. b = 0 \<or> b = 1 \<Longrightarrow>
   map (\<lambda>k. (base2_value row div 2 ^ k) mod 2) (rev [0..<length row]) = row"
proof (induction row rule: rev_induct)
  case Nil then show ?case by simp
next
  case (snoc x xs)
  then have x: "x = 0 \<or> x = 1"
    and IH: "map (\<lambda>k. (base2_value xs div 2 ^ k) mod 2) (rev [0..<length xs]) = xs" by auto
  have step: "\<And>k. (2 * base2_value xs + x) div (2 * 2 ^ k) = base2_value xs div 2 ^ k"
  proof -
    fix k :: nat
    have "(2 * base2_value xs + x) div 2 = base2_value xs" using x by auto
    moreover have "(2 * base2_value xs + x) div (2 * 2 ^ k)
        = (2 * base2_value xs + x) div 2 div 2 ^ k"
      by (rule zdiv_zmult2_eq) simp
    ultimately show "(2 * base2_value xs + x) div (2 * 2 ^ k) = base2_value xs div 2 ^ k"
      by simp
  qed
  have "map (\<lambda>k. (base2_value (xs @ [x]) div 2 ^ k) mod 2) (rev [0..<Suc (length xs)])
      = map (\<lambda>k. (base2_value xs div 2 ^ k) mod 2) (rev [0..<length xs]) @ [x]"
    using x by (simp only: rev_upt_Suc_map) (auto simp add: base2_value_snoc comp_def step)
  then show ?case by (simp add: IH)
qed

lemma foldl_bits_value:
  "foldl (\<lambda>acc b. 2 * acc + b) a (map (\<lambda>k. (d div 2 ^ k) mod 2) (rev [0..<n]))
     = a * 2 ^ n + d mod 2 ^ n" for d :: int
proof (induction n arbitrary: a)
  case 0 then show ?case by simp
next
  case (Suc n)
  have "d mod (2 ^ n * 2) = 2 ^ n * (d div 2 ^ n mod 2) + d mod 2 ^ n"
    by (rule zmod_zmult2_eq) simp
  then have m: "d mod 2 ^ Suc n = (d div 2 ^ n) mod 2 * 2 ^ n + d mod 2 ^ n"
    by (simp add: mult.commute)
  have "foldl (\<lambda>acc b. 2 * acc + b) a (map (\<lambda>k. (d div 2 ^ k) mod 2) (rev [0..<Suc n]))
      = foldl (\<lambda>acc b. 2 * acc + b) (2 * a + (d div 2 ^ n) mod 2)
          (map (\<lambda>k. (d div 2 ^ k) mod 2) (rev [0..<n]))"
    by simp
  also have "\<dots> = (2 * a + (d div 2 ^ n) mod 2) * 2 ^ n + d mod 2 ^ n"
    by (rule Suc.IH)
  also have "\<dots> = a * 2 ^ Suc n + d mod 2 ^ Suc n"
    by (simp only: m) (simp add: algebra_simps)
  finally show ?case .
qed

lemma base2_value_of_bits:
  "0 \<le> d \<Longrightarrow> d < 2 ^ n \<Longrightarrow> base2_value (map (\<lambda>k. (d div 2 ^ k) mod 2) (rev [0..<n])) = d"
  by (simp add: base2_value_def foldl_bits_value)


lemma horner_word: "horner (map word_of_int row) = (word_of_int (base2_value row) :: int32)"
  by (induction row rule: rev_induct)
     (simp_all add: horner_snoc base2_value_snoc, simp add: horner_def base2_value_def)

lemma sint_word_of_nat: "k < 2 ^ 31 \<Longrightarrow> nat (sint (word_of_nat k :: int32)) = k"
proof -
  assume k: "k < 2 ^ 31"
  then have "int k < 2 ^ 31" by (metis of_nat_less_iff of_nat_numeral of_nat_power)
  then have "sint (word_of_int (int k) :: int32) = int k"
    by (intro sint_small) simp_all
  then show ?thesis by simp
qed

lemma pow2_qrange:
  "n \<le> 2 ^ 31 \<Longrightarrow>
   map pow2_int32 (map word_of_nat (rev [0..<n])) = map (\<lambda>k. 2 ^ k) (rev [0..<n])"
  by (simp add: pow2_int32_def sint_word_of_nat)

lemma to_int32_int_row: "map to_int32 row = map word_of_int (int_row row)"
  by (simp add: to_int32_def int_row_def)

text \<open>The word that the dot product of a row with the powers of two gives.\<close>

lemma dot_row_word:
  assumes "length row = n" and "n \<le> 2 ^ 31"
  shows "dot (map to_int32 row) (map pow2_int32 (map word_of_nat (rev [0..<n])))
       = word_of_int (base2_value (int_row row))"
proof -
  have "length (map word_of_int (int_row row) :: int32 list) = n"
    using assms(1) by (simp add: int_row_def)
  then have "dot (map word_of_int (int_row row) :: int32 list) (map (\<lambda>k. 2 ^ k) (rev [0..<n]))
      = horner (map word_of_int (int_row row))"
    by (rule dot_pows)
  then show ?thesis
    by (simp only: to_int32_int_row pow2_qrange [OF assms(2)] horner_word)
qed

lemma rows_of_concat: "length xs = c * len \<Longrightarrow> concat (rows_of c len xs) = xs"
  by (induction c arbitrary: xs) simp_all

lemma rows_of_length: "length (rows_of c len xs) = c"
  by (induction c arbitrary: xs) simp_all

lemma rows_of_rows:
  "length xs = c * len \<Longrightarrow> row \<in> set (rows_of c len xs) \<Longrightarrow>
   length row = len \<and> set row \<subseteq> set xs"
proof (induction c arbitrary: xs)
  case 0
  then show ?case by simp
next
  case (Suc c)
  from Suc.prems(1) have l: "length (drop len xs) = c * len" by simp
  from Suc.prems(2) consider "row = take len xs" | "row \<in> set (rows_of c len (drop len xs))"
    by auto
  then show ?case
  proof cases
    case 1
    then show ?thesis using Suc.prems(1) by (auto dest: in_set_takeD)
  next
    case 2
    from Suc.IH [OF l 2] show ?thesis by (auto dest: in_set_dropD)
  qed
qed

lemma rows_of_map_concat:
  "length zs = c \<Longrightarrow> \<forall>z \<in> set zs. length (f z) = len \<Longrightarrow>
   rows_of c len (concat (map f zs)) = map f zs"
  by (induction zs arbitrary: c) auto

lemma rows_of_single: "length xs = c \<Longrightarrow> rows_of c 1 xs = map (\<lambda>x. [x]) xs"
proof (induction xs arbitrary: c)
  case Nil
  then show ?case by simp
next
  case (Cons x xs)
  then obtain c' where "c = Suc c'" "length xs = c'" by (cases c) auto
  with Cons.IH [of c'] show ?case by simp
qed


lemma cast_int32_tensor:
  "t_dtype t = Int32 \<Longrightarrow> cast conv parse self (XTensor t) (DOther ''int32'') False = Inr t"
  by (simp add: cast_def dict_lookup_def torch_dtype_dict_def tensor_to_def)

lemma arange_desc_nonneg:
  "0 \<le> nqubits \<Longrightarrow> arange_desc nqubits = Inr (map word_of_nat (rev [0..<nat nqubits]))"
  by (simp add: arange_desc_def)

lemma matmul_col_matrix:
  assumes "t_dtype t = Int32" and "t_shape t = [m, n]" and "length v = n"
  shows "matmul_col t v = Inr \<lparr>t_dtype = Int32, t_shape = [m, 1],
           t_elems = map (\<lambda>row. of_int32 (dot (map to_int32 row) v)) (rows_of m n (t_elems t))\<rparr>"
  using assms by (simp add: matmul_col_def)

lemma squeeze1_column:
  "squeeze1 \<lparr>t_dtype = d, t_shape = [m, 1], t_elems = xs\<rparr>
     = Inr \<lparr>t_dtype = d, t_shape = [m], t_elems = xs\<rparr>"
  by (simp add: squeeze1_def)

text \<open>What \<open>samples_to_decimal\<close> gives on a matrix, as words.\<close>

lemma samples_to_decimal_words:
  assumes c: "cast conv parse self s (DOther ''int32'') False = Inr t"
    and d: "t_dtype t = Int32" and n: "0 \<le> nqubits" "nqubits \<le> 2 ^ 31"
    and sh: "t_shape t = [m, nat nqubits]" and len: "length (t_elems t) = m * nat nqubits"
  shows "samples_to_decimal conv parse self s nqubits
       = Inr \<lparr>t_dtype = Int32, t_shape = [m],
               t_elems = map (\<lambda>row. of_int32 (word_of_int (base2_value (int_row row))))
                 (rows_of m (nat nqubits) (t_elems t))\<rparr>"
proof -
  let ?n = "nat nqubits"
  let ?q = "map word_of_nat (rev [0..<?n]) :: int32 list"
  have n': "?n \<le> 2 ^ 31" using n by (simp add: nat_le_iff)
  have m: "matmul_col t (map pow2_int32 ?q) = Inr \<lparr>t_dtype = Int32, t_shape = [m, 1],
      t_elems = map (\<lambda>row. of_int32 (dot (map to_int32 row) (map pow2_int32 ?q)))
        (rows_of m ?n (t_elems t))\<rparr>"
    by (rule matmul_col_matrix [OF d sh]) simp
  have e: "map (\<lambda>row. of_int32 (dot (map to_int32 row) (map pow2_int32 ?q)))
        (rows_of m ?n (t_elems t))
      = map (\<lambda>row. of_int32 (word_of_int (base2_value (int_row row))))
        (rows_of m ?n (t_elems t))"
  proof (rule map_cong [OF refl])
    fix row assume "row \<in> set (rows_of m ?n (t_elems t))"
    then have "length row = ?n" using rows_of_rows [OF len] by blast
    then show "of_int32 (dot (map to_int32 row) (map pow2_int32 ?q))
        = of_int32 (word_of_int (base2_value (int_row row)))"
      by (simp only: dot_row_word [OF _ n'])
  qed
  show ?thesis
    by (simp only: samples_to_decimal_def c arange_desc_nonneg [OF n(1)] sum.case m e
        squeeze1_column)
qed

lemma int_row_bits:
  "\<forall>z \<in> set row. z = 0 \<or> z = 1 \<Longrightarrow>
   (\<forall>b \<in> set (int_row row). b = 0 \<or> b = 1) \<and> map of_int (int_row row) = row"
  by (induction row) (auto simp add: int_row_def)

lemma of_int32_small: "0 \<le> v \<Longrightarrow> v < 2 ^ 31 \<Longrightarrow> of_int32 (word_of_int v) = of_int v"
  by (simp add: of_int32_def sint_small)

lemma to_of_int32: "to_int32 (of_int32 w) = w"
proof -
  have "\<lfloor>Re (of_int (sint w) :: complex)\<rfloor> = sint w"
    by (simp only: complex_Re_of_int floor_of_int)
  then have "to_int32 (of_int32 w) = word_of_int (sint w)"
    by (simp only: to_int32_def of_int32_def)
  also have "\<dots> = w" by simp
  finally show ?thesis .
qed

text \<open>What \<open>samples_to_binary\<close> gives on a vector of words.\<close>

lemma samples_to_binary_cast:
  assumes c: "cast conv parse self s (DOther ''int32'') False
      = Inr \<lparr>t_dtype = Int32, t_shape = [m], t_elems = map of_int32 ws\<rparr>"
    and n: "0 \<le> nqubits" and l: "length ws = m"
  shows "samples_to_binary conv parse self s nqubits
       = Inr \<lparr>t_dtype = Int32, t_shape = [m, nat nqubits],
               t_elems = concat (map (\<lambda>w. map (shift_mod2 w)
                 (map word_of_nat (rev [0..<nat nqubits]))) ws)\<rparr>"
proof -
  let ?r = "\<lparr>t_dtype = Int32, t_shape = [m], t_elems = map of_int32 ws\<rparr>"
  let ?q = "map word_of_nat (rev [0..<nat nqubits]) :: int32 list"
  have t: "tensor_to conv ?r Int32 = ?r" by (simp add: tensor_to_def)
  have r: "rows_of m (Suc 0) (map of_int32 ws) = map (\<lambda>x. [x]) (map of_int32 ws)"
    using rows_of_single [of "map of_int32 ws" m] l by simp
  have "shift_broadcast ?r ?q = Inr \<lparr>t_dtype = Int32, t_shape = [m, nat nqubits],
      t_elems = concat (map (\<lambda>w. map (shift_mod2 w) ?q) ws)\<rparr>"
    by (simp add: shift_broadcast_def Let_def r comp_def to_of_int32)
  then show ?thesis
    by (simp only: samples_to_binary_def c arange_desc_nonneg [OF n] sum.case t)
qed

lemma samples_to_binary_words:
  assumes n: "0 \<le> nqubits" and l: "length ws = m"
  shows "samples_to_binary conv parse self
           (XTensor \<lparr>t_dtype = Int32, t_shape = [m], t_elems = map of_int32 ws\<rparr>) nqubits
       = Inr \<lparr>t_dtype = Int32, t_shape = [m, nat nqubits],
               t_elems = concat (map (\<lambda>w. map (shift_mod2 w)
                 (map word_of_nat (rev [0..<nat nqubits]))) ws)\<rparr>"
  by (rule samples_to_binary_cast [OF cast_int32_tensor n l]) simp

lemma shift_mod2_bit:
  assumes "k < 2 ^ 31"
  shows "shift_mod2 w (word_of_nat k) = of_int ((sint w div 2 ^ k) mod 2)"
  by (simp add: shift_mod2_def sint_word_of_nat [OF assms] sint_signed_drop_bit_eq
      drop_bit_eq_div)

lemma sint_div_mod2:
  assumes "k < 32"
  shows "(sint (word_of_int v :: int32) div 2 ^ k) mod 2 = (v div 2 ^ k) mod 2"
proof -
  have "bit (sint (word_of_int v :: int32)) k \<longleftrightarrow> bit v k"
    using assms by (simp add: bit_sint_iff bit_word_of_int_iff)
  then have "odd (sint (word_of_int v :: int32) div 2 ^ k) \<longleftrightarrow> odd (v div 2 ^ k)"
    by (simp add: bit_iff_odd)
  then show ?thesis by (simp add: mod_2_eq_odd)
qed


lemma bit_matrix_rows:
  assumes b: "is_bit_matrix t m nqubits" and r: "row \<in> set (rows_of m (nat nqubits) (t_elems t))"
  shows "length row = nat nqubits" and "\<forall>z \<in> set row. z = 0 \<or> z = 1"
proof -
  from b have len: "length (t_elems t) = m * nat nqubits"
    and bits: "\<forall>z \<in> set (t_elems t). z = 0 \<or> z = 1"
    by (simp_all add: is_bit_matrix_def)
  from rows_of_rows [OF len r] show "length row = nat nqubits" by simp
  from rows_of_rows [OF len r] bits show "\<forall>z \<in> set row. z = 0 \<or> z = 1" by blast
qed

lemma row_value_bounds:
  assumes "length row = n" and "\<forall>z \<in> set row. z = 0 \<or> z = 1"
  shows "0 \<le> base2_value (int_row row)" and "base2_value (int_row row) < 2 ^ n"
proof -
  have "\<forall>b \<in> set (int_row row). b = 0 \<or> b = 1" using int_row_bits [OF assms(2)] by simp
  from base2_value_bounds [OF this] assms(1)
  show "0 \<le> base2_value (int_row row)" and "base2_value (int_row row) < 2 ^ n"
    by (simp_all add: int_row_def)
qed

lemma decimal_values:
  assumes c: "cast conv parse self s (DOther ''int32'') False = Inr t"
    and b: "is_bit_matrix t m nqubits" and n: "nqubits \<le> 31"
  shows "samples_to_decimal conv parse self s nqubits
       = Inr \<lparr>t_dtype = Int32, t_shape = [m], t_elems = row_values t m nqubits\<rparr>"
proof -
  from b have d: "t_dtype t = Int32" and n0: "0 \<le> nqubits"
    and sh: "t_shape t = [m, nat nqubits]" and len: "length (t_elems t) = m * nat nqubits"
    by (simp_all add: is_bit_matrix_def)
  have n1: "nqubits \<le> 2 ^ 31" using n by simp
  have "map (\<lambda>row. of_int32 (word_of_int (base2_value (int_row row))))
          (rows_of m (nat nqubits) (t_elems t))
      = map (\<lambda>row. of_int (base2_value (int_row row))) (rows_of m (nat nqubits) (t_elems t))"
  proof (rule map_cong [OF refl])
    fix row assume r: "row \<in> set (rows_of m (nat nqubits) (t_elems t))"
    note v = row_value_bounds [OF bit_matrix_rows [OF b r]]
    have "(2::int) ^ nat nqubits \<le> 2 ^ 31"
      by (rule power_increasing) (use n in auto)
    with v(2) have "base2_value (int_row row) < 2 ^ 31" by linarith
    with v(1) show "of_int32 (word_of_int (base2_value (int_row row)))
        = of_int (base2_value (int_row row))"
      by (rule of_int32_small)
  qed
  then show ?thesis
    by (simp only: samples_to_decimal_words [OF c d n0 n1 sh len] row_values_def)
qed

lemma row_from_word:
  assumes l: "length row = n" and bits: "\<forall>z \<in> set row. z = 0 \<or> z = 1" and n: "n \<le> 32"
  shows "map (shift_mod2 (word_of_int (base2_value (int_row row))))
           (map word_of_nat (rev [0..<n])) = row"
proof -
  let ?v = "base2_value (int_row row)"
  have ib: "\<forall>b \<in> set (int_row row). b = 0 \<or> b = 1" and mr: "map of_int (int_row row) = row"
    using int_row_bits [OF bits] by simp_all
  have "map (shift_mod2 (word_of_int ?v)) (map word_of_nat (rev [0..<n]))
      = map (\<lambda>k. of_int ((?v div 2 ^ k) mod 2)) (rev [0..<n])"
  proof -
    have "shift_mod2 (word_of_int ?v) (word_of_nat k) = of_int ((?v div 2 ^ k) mod 2)"
      if "k < n" for k
    proof -
      from that n have k: "k < 32" by simp
      then have "k < 2 ^ 31" by simp
      then show ?thesis by (simp only: shift_mod2_bit sint_div_mod2 [OF k])
    qed
    then show ?thesis by (simp add: comp_def)
  qed
  also have "\<dots> = map of_int (map (\<lambda>k. (?v div 2 ^ k) mod 2) (rev [0..<length (int_row row)]))"
    using l by (simp add: int_row_def comp_def)
  also have "\<dots> = map of_int (int_row row)"
    by (simp only: bits_of_base2_value [OF ib])
  also have "\<dots> = row" by (rule mr)
  finally have fin: "map (shift_mod2 (word_of_int ?v)) (map word_of_nat (rev [0..<n])) = row" .
  then show ?thesis by simp
qed

lemma decimal_then_binary:
  assumes c: "cast conv parse self s (DOther ''int32'') False = Inr t"
    and b: "is_bit_matrix t m nqubits" and n: "nqubits \<le> 32"
  shows "\<exists>r. samples_to_decimal conv parse self s nqubits = Inr r \<and>
             samples_to_binary conv parse self (XTensor r) nqubits = Inr t"
proof -
  from b have d: "t_dtype t = Int32" and n0: "0 \<le> nqubits"
    and sh: "t_shape t = [m, nat nqubits]" and len: "length (t_elems t) = m * nat nqubits"
    by (simp_all add: is_bit_matrix_def)
  have n1: "nqubits \<le> 2 ^ 31" using n by simp
  have n2: "nat nqubits \<le> 32" using n by simp
  let ?rows = "rows_of m (nat nqubits) (t_elems t)"
  let ?ws = "map (\<lambda>row. word_of_int (base2_value (int_row row)) :: int32) ?rows"
  let ?r = "\<lparr>t_dtype = Int32, t_shape = [m], t_elems = map of_int32 ?ws\<rparr>"
  have dec: "samples_to_decimal conv parse self s nqubits = Inr ?r"
    by (simp only: samples_to_decimal_words [OF c d n0 n1 sh len] map_map comp_def)
  have lw: "length ?ws = m" by (simp add: rows_of_length)
  have "map (\<lambda>row. map (shift_mod2 (word_of_int (base2_value (int_row row))))
            (map word_of_nat (rev [0..<nat nqubits]))) ?rows
      = map (\<lambda>row. row) ?rows"
  proof (rule map_cong [OF refl])
    fix row assume r: "row \<in> set ?rows"
    show "map (shift_mod2 (word_of_int (base2_value (int_row row))))
            (map word_of_nat (rev [0..<nat nqubits])) = row"
      by (rule row_from_word [OF bit_matrix_rows [OF b r] n2])
  qed
  then have "concat (map (\<lambda>w. map (shift_mod2 w) (map word_of_nat (rev [0..<nat nqubits]))) ?ws)
      = concat ?rows"
    by (simp add: comp_def)
  also have "\<dots> = t_elems t" using rows_of_concat [OF len] by simp
  finally have e: "concat (map (\<lambda>w. map (shift_mod2 w)
      (map word_of_nat (rev [0..<nat nqubits]))) ?ws) = t_elems t" .
  have "samples_to_binary conv parse self (XTensor ?r) nqubits
      = Inr \<lparr>t_dtype = Int32, t_shape = [m, nat nqubits], t_elems = t_elems t\<rparr>"
    by (simp only: samples_to_binary_words [OF n0 lw] e)
  also have "\<lparr>t_dtype = Int32, t_shape = [m, nat nqubits], t_elems = t_elems t\<rparr> = t"
    using d sh by simp
  finally show ?thesis using dec by blast
qed


lemma bits_from_word:
  assumes d: "0 \<le> d" "d < 2 ^ 31" and n: "n \<le> 2 ^ 31"
  shows "map (shift_mod2 (word_of_int d)) (map word_of_nat (rev [0..<n]))
       = map (\<lambda>k. of_int ((d div 2 ^ k) mod 2)) (rev [0..<n])"
proof -
  have "shift_mod2 (word_of_int d) (word_of_nat k) = of_int ((d div 2 ^ k) mod 2)"
    if "k < n" for k
  proof -
    from that n have "k < 2 ^ 31" by simp
    then show ?thesis by (simp only: shift_mod2_bit sint_small [OF d])
  qed
  then show ?thesis by (simp add: comp_def)
qed

lemma int_row_bits_of:
  "int_row (map (\<lambda>k. of_int ((d div 2 ^ k) mod 2)) ks) = map (\<lambda>k. (d div 2 ^ k) mod 2) ks"
  by (simp add: int_row_def comp_def)

lemma binary_then_decimal:
  assumes c: "cast conv parse self x (DOther ''int32'') False = Inr v"
    and iv: "is_index_vector v m nqubits" and n0: "0 \<le> nqubits" and n: "nqubits \<le> 2 ^ 31"
  shows "\<exists>b. samples_to_binary conv parse self x nqubits = Inr b \<and>
             samples_to_decimal conv parse self (XTensor b) nqubits = Inr v"
proof -
  let ?n = "nat nqubits"
  let ?zs = "t_elems v"
  let ?bits = "\<lambda>z. map (\<lambda>k. of_int ((\<lfloor>Re z\<rfloor> div 2 ^ k) mod 2)) (rev [0..<?n]) :: complex list"
  from iv have dt: "t_dtype v = Int32" and sh: "t_shape v = [m]"
    and len: "length ?zs = m"
    and el: "\<And>z. z \<in> set ?zs \<Longrightarrow> z = of_int \<lfloor>Re z\<rfloor> \<and> 0 \<le> \<lfloor>Re z\<rfloor> \<and>
              \<lfloor>Re z\<rfloor> < 2 ^ ?n \<and> \<lfloor>Re z\<rfloor> < 2 ^ 31"
    by (simp_all add: is_index_vector_def)
  have n2: "?n \<le> 2 ^ 31" using n by (simp add: nat_le_iff)
  have small: "of_int32 (word_of_int \<lfloor>Re z\<rfloor>) = z" if "z \<in> set ?zs" for z
  proof -
    have "of_int32 (word_of_int \<lfloor>Re z\<rfloor>) = of_int \<lfloor>Re z\<rfloor>"
      using el [OF that] by (intro of_int32_small) auto
    then show ?thesis using el [OF that] by simp
  qed
  have rt: "map of_int32 (map to_int32 ?zs) = ?zs"
    using small by (simp add: map_idI to_int32_def)
  have v: "v = \<lparr>t_dtype = Int32, t_shape = [m], t_elems = map of_int32 (map to_int32 ?zs)\<rparr>"
    using dt sh by (simp only: rt) simp
  have c': "cast conv parse self x (DOther ''int32'') False
      = Inr \<lparr>t_dtype = Int32, t_shape = [m], t_elems = map of_int32 (map to_int32 ?zs)\<rparr>"
    using c v by simp
  have "map (\<lambda>z. map (shift_mod2 (to_int32 z)) (map word_of_nat (rev [0..<?n]))) ?zs
      = map ?bits ?zs"
  proof (rule map_cong [OF refl])
    fix z assume z: "z \<in> set ?zs"
    have "map (shift_mod2 (word_of_int \<lfloor>Re z\<rfloor>)) (map word_of_nat (rev [0..<?n])) = ?bits z"
      using el [OF z] n2 by (intro bits_from_word) auto
    then show "map (shift_mod2 (to_int32 z)) (map word_of_nat (rev [0..<?n])) = ?bits z"
      by (simp only: to_int32_def)
  qed
  then have rows:
    "map (\<lambda>w. map (shift_mod2 w) (map word_of_nat (rev [0..<?n]))) (map to_int32 ?zs)
      = map ?bits ?zs"
    by (simp add: comp_def)
  let ?b = "\<lparr>t_dtype = Int32, t_shape = [m, ?n], t_elems = concat (map ?bits ?zs)\<rparr>"
  have bin: "samples_to_binary conv parse self x nqubits = Inr ?b"
    using samples_to_binary_cast [OF c' n0] len by (simp only: rows length_map)
  have rb: "rows_of m ?n (concat (map ?bits ?zs)) = map ?bits ?zs"
    by (rule rows_of_map_concat) (simp_all add: len)
  have lb: "length (concat (map ?bits ?zs)) = m * ?n"
    using len by (simp add: length_concat comp_def sum_list_triv)
  have cb: "cast conv parse self (XTensor ?b) (DOther ''int32'') False = Inr ?b"
    by (rule cast_int32_tensor) simp
  have "map (\<lambda>row. of_int32 (word_of_int (base2_value (int_row row))))
          (rows_of m ?n (t_elems ?b))
      = map (\<lambda>z. of_int32 (word_of_int (base2_value (int_row (?bits z))))) ?zs"
    by (simp add: rb comp_def)
  also have "\<dots> = map (\<lambda>z. z) ?zs"
  proof (rule map_cong [OF refl])
    fix z assume z: "z \<in> set ?zs"
    have "base2_value (int_row (?bits z)) = \<lfloor>Re z\<rfloor>"
      using el [OF z] by (simp only: int_row_bits_of base2_value_of_bits)
    then show "of_int32 (word_of_int (base2_value (int_row (?bits z)))) = z"
      using small [OF z] by simp
  qed
  finally have rv: "map (\<lambda>row. of_int32 (word_of_int (base2_value (int_row row))))
      (rows_of m ?n (t_elems ?b)) = ?zs" by simp
  have "samples_to_decimal conv parse self (XTensor ?b) nqubits
      = Inr \<lparr>t_dtype = Int32, t_shape = [m], t_elems = ?zs\<rparr>"
    using samples_to_decimal_words [OF cb _ n0 n, of m] lb by (simp only: rv) simp
  also have "\<lparr>t_dtype = Int32, t_shape = [m], t_elems = ?zs\<rparr> = v" using dt sh by simp
  finally show ?thesis using bin by blast
qed


text \<open>
  Claim C8, as amended. Let the cast of the input to \<open>int32\<close> give an \<open>int32\<close> tensor of
  shape \<open>(m, nqubits)\<close> with entries in \<open>{0, 1}\<close>. For at most 31 qubits,
  \<open>samples_to_decimal\<close> returns the base-2 value of every row (first column most
  significant); for at most 32 qubits, \<open>samples_to_binary\<close> of the result of
  \<open>samples_to_decimal\<close> gives the matrix back. Conversely, let the cast of the input give
  an \<open>int32\<close> vector of integers \<open>0 \<le> d < 2 ^ nqubits\<close>, with \<open>0 \<le> nqubits \<le> 2 ^ 31\<close>:
  \<open>samples_to_decimal\<close> of the result of \<open>samples_to_binary\<close> gives the vector back.
\<close>

theorem samples_conversion_roundtrip:
  "(cast conv parse self s (DOther ''int32'') False = Inr t \<and> is_bit_matrix t m nqubits \<longrightarrow>
      (nqubits \<le> 31 \<longrightarrow>
         samples_to_decimal conv parse self s nqubits
           = Inr \<lparr>t_dtype = Int32, t_shape = [m], t_elems = row_values t m nqubits\<rparr>) \<and>
      (nqubits \<le> 32 \<longrightarrow>
         (\<exists>r. samples_to_decimal conv parse self s nqubits = Inr r \<and>
              samples_to_binary conv parse self (XTensor r) nqubits = Inr t))) \<and>
   (cast conv parse self d (DOther ''int32'') False = Inr v \<and> is_index_vector v k nqubits \<and>
      0 \<le> nqubits \<and> nqubits \<le> 2 ^ 31 \<longrightarrow>
      (\<exists>b. samples_to_binary conv parse self d nqubits = Inr b \<and>
           samples_to_decimal conv parse self (XTensor b) nqubits = Inr v))"
  using decimal_values [of conv parse self s t m nqubits]
    decimal_then_binary [of conv parse self s t m nqubits]
    binary_then_decimal [of conv parse self d v k nqubits]
  by blast

text \<open>The theorem at three qubits, on an \<open>int64\<close> matrix of two rows and on a vector
  of two values.\<close>

theorem samples_conversion_roundtrip_witness:
  "cast (\<lambda>a b z. z) (\<lambda>x d. Inl ValueError) \<lparr>b_dtype = Complex128\<rparr>
     (XTensor \<lparr>t_dtype = Int64, t_shape = [2, 3], t_elems = [1, 0, 1, 0, 1, 1]\<rparr> :: unit cast_input)
     (DOther ''int32'') False
     = Inr \<lparr>t_dtype = Int32, t_shape = [2, 3], t_elems = [1, 0, 1, 0, 1, 1]\<rparr> \<and>
   is_bit_matrix \<lparr>t_dtype = Int32, t_shape = [2, 3], t_elems = [1, 0, 1, 0, 1, 1]\<rparr> 2 3 \<and>
   (3::int) \<le> 31 \<and>
   samples_to_decimal (\<lambda>a b z. z) (\<lambda>x d. Inl ValueError) \<lparr>b_dtype = Complex128\<rparr>
     (XTensor \<lparr>t_dtype = Int64, t_shape = [2, 3], t_elems = [1, 0, 1, 0, 1, 1]\<rparr> :: unit cast_input) 3
     = Inr \<lparr>t_dtype = Int32, t_shape = [2], t_elems = [5, 3]\<rparr> \<and>
   samples_to_binary (\<lambda>a b z. z) (\<lambda>x d. Inl ValueError) \<lparr>b_dtype = Complex128\<rparr>
     (XTensor \<lparr>t_dtype = Int32, t_shape = [2], t_elems = [5, 3]\<rparr> :: unit cast_input) 3
     = Inr \<lparr>t_dtype = Int32, t_shape = [2, 3], t_elems = [1, 0, 1, 0, 1, 1]\<rparr> \<and>
   is_index_vector \<lparr>t_dtype = Int32, t_shape = [2], t_elems = [6, 1]\<rparr> 2 3 \<and>
   (\<exists>b. samples_to_binary (\<lambda>a b z. z) (\<lambda>x d. Inl ValueError) \<lparr>b_dtype = Complex128\<rparr>
          (XTensor \<lparr>t_dtype = Int32, t_shape = [2], t_elems = [6, 1]\<rparr> :: unit cast_input) 3 = Inr b \<and>
        samples_to_decimal (\<lambda>a b z. z) (\<lambda>x d. Inl ValueError) \<lparr>b_dtype = Complex128\<rparr>
          (XTensor b :: unit cast_input) 3
          = Inr \<lparr>t_dtype = Int32, t_shape = [2], t_elems = [6, 1]\<rparr>)"
proof -
  let ?conv = "\<lambda>(a::dtype) (b::dtype) (z::complex). z"
  let ?parse = "\<lambda>(x::unit cast_input) (d::dtype). Inl ValueError :: error + nat list \<times> complex list"
  let ?self = "\<lparr>b_dtype = Complex128\<rparr>"
  let ?s = "XTensor \<lparr>t_dtype = Int64, t_shape = [2, 3], t_elems = [1, 0, 1, 0, 1, 1]\<rparr> :: unit cast_input"
  let ?t = "\<lparr>t_dtype = Int32, t_shape = [2, 3], t_elems = [1, 0, 1, 0, 1, 1]\<rparr>"
  let ?v = "\<lparr>t_dtype = Int32, t_shape = [2], t_elems = [6, 1]\<rparr>"
  have c: "cast ?conv ?parse ?self ?s (DOther ''int32'') False = Inr ?t"
    by (simp add: cast_def dict_lookup_def torch_dtype_dict_def tensor_to_def)
  have b: "is_bit_matrix ?t 2 3" by (simp add: is_bit_matrix_def)
  have rv: "row_values ?t 2 3 = [5, 3]"
    by (simp add: row_values_def numeral_2_eq_2 numeral_3_eq_3 int_row_def base2_value_def)
  have cv: "cast ?conv ?parse ?self (XTensor ?v) (DOther ''int32'') False = Inr ?v"
    by (rule cast_int32_tensor) simp
  have iv: "is_index_vector ?v 2 3" by (simp add: is_index_vector_def)
  note th = samples_conversion_roundtrip [of ?conv ?parse ?self ?s ?t 2 3 "XTensor ?v" ?v 2]
  from th c b have d: "samples_to_decimal ?conv ?parse ?self ?s 3
      = Inr \<lparr>t_dtype = Int32, t_shape = [2], t_elems = [5, 3]\<rparr>"
    by (simp add: rv)
  from th c b obtain r where "samples_to_decimal ?conv ?parse ?self ?s 3 = Inr r"
    and "samples_to_binary ?conv ?parse ?self (XTensor r) 3 = Inr ?t"
    by auto
  with d have bn: "samples_to_binary ?conv ?parse ?self
      (XTensor \<lparr>t_dtype = Int32, t_shape = [2], t_elems = [5, 3]\<rparr>) 3 = Inr ?t"
    by simp
  from th cv iv have e: "\<exists>b. samples_to_binary ?conv ?parse ?self (XTensor ?v) 3 = Inr b \<and>
      samples_to_decimal ?conv ?parse ?self (XTensor b) 3 = Inr ?v"
    by simp
  from c b d bn iv e show ?thesis by simp
qed

lemma base2_value_leading_one: "base2_value (1 # replicate k 0) = 2 ^ k"
proof (induction k)
  case 0
  show ?case by (simp add: base2_value_def)
next
  case (Suc k)
  have "1 # replicate (Suc k) (0::int) = (1 # replicate k 0) @ [0]"
    by (simp add: replicate_append_same)
  then show ?case by (simp only: base2_value_snoc Suc.IH) simp
qed

lemma int_row_leading_one: "int_row (1 # replicate k 0) = 1 # replicate k 0"
  by (simp add: int_row_def)

lemma shift_mod2_zero: "shift_mod2 0 q = 0"
  by (simp add: shift_mod2_def)

lemma of_int32_wraps:
  "of_int32 (word_of_int (2 ^ 31)) = - 2147483648" "of_int32 (word_of_int (2 ^ 32)) = 0"
  "of_int32 2147483648 = - 2147483648" "of_int32 4294967296 = 0"
  by (simp_all add: of_int32_def)

lemma decimal_of_leading_one:
  assumes n: "nqubits = 1 + int k" "nqubits \<le> 2 ^ 31"
  shows "samples_to_decimal conv parse self
           (XTensor \<lparr>t_dtype = Int32, t_shape = [1, nat nqubits], t_elems = 1 # replicate k 0\<rparr>)
           nqubits
       = Inr \<lparr>t_dtype = Int32, t_shape = [1], t_elems = [of_int32 (word_of_int (2 ^ k))]\<rparr>"
proof -
  let ?t = "\<lparr>t_dtype = Int32, t_shape = [1, nat nqubits], t_elems = 1 # replicate k 0\<rparr>"
  have c: "cast conv parse self (XTensor ?t) (DOther ''int32'') False = Inr ?t"
    by (rule cast_int32_tensor) simp
  have n0: "0 \<le> nqubits" using n by simp
  have l: "length (t_elems ?t) = 1 * nat nqubits" using n by simp
  have r: "rows_of 1 (nat nqubits) (1 # replicate k (0::complex)) = [1 # replicate k 0]"
    using n by simp
  have d: "t_dtype ?t = Int32" and sh: "t_shape ?t = [1, nat nqubits]" by simp_all
  have tk: "take (nat nqubits) (1 # replicate k (0::complex)) = 1 # replicate k 0"
    using n by simp
  show ?thesis
    using samples_to_decimal_words [OF c d n0 n(2) sh l]
    by (simp add: tk int_row_leading_one base2_value_leading_one)
qed


text \<open>
  Claim C8 as stated, for every number of qubits and every integer input, fails in four
  places. At 32 qubits the row \<open>1, 0, ..., 0\<close> has the base-2 value \<open>2 ^ 31\<close>, and
  \<open>samples_to_decimal\<close> returns \<open>- (2 ^ 31)\<close>. At 32 qubits the integer \<open>2 ^ 31\<close>, below
  \<open>2 ^ 32\<close>, goes through \<open>samples_to_binary\<close> to that row, and so comes back as
  \<open>- (2 ^ 31)\<close>. At 33 qubits the row \<open>1, 0, ..., 0\<close> gives 0, and \<open>samples_to_binary\<close> of
  0 is the row of zeros. A list of two \<open>int64\<close> row tensors is stacked without a change of
  dtype, and the matrix product with the \<open>int32\<close> column raises \<open>RuntimeError\<close>.
\<close>

theorem samples_to_decimal_overflow_counterexample:
  "is_bit_matrix \<lparr>t_dtype = Int32, t_shape = [1, 32], t_elems = 1 # replicate 31 0\<rparr> 1 32 \<and>
   samples_to_decimal (\<lambda>a b z. if b = Int32 then of_int32 (to_int32 z) else z)
     (\<lambda>x d. Inl ValueError) \<lparr>b_dtype = Complex128\<rparr>
     (XTensor \<lparr>t_dtype = Int32, t_shape = [1, 32], t_elems = 1 # replicate 31 0\<rparr> :: unit cast_input)
     32
     = Inr \<lparr>t_dtype = Int32, t_shape = [1], t_elems = [- 2147483648]\<rparr> \<and>
   row_values \<lparr>t_dtype = Int32, t_shape = [1, 32], t_elems = 1 # replicate 31 0\<rparr> 1 32
     = [2147483648] \<and>
   samples_to_binary (\<lambda>a b z. if b = Int32 then of_int32 (to_int32 z) else z)
     (\<lambda>x d. Inl ValueError) \<lparr>b_dtype = Complex128\<rparr>
     (XTensor \<lparr>t_dtype = Int64, t_shape = [1], t_elems = [2147483648]\<rparr> :: unit cast_input) 32
     = Inr \<lparr>t_dtype = Int32, t_shape = [1, 32], t_elems = 1 # replicate 31 0\<rparr> \<and>
   is_bit_matrix \<lparr>t_dtype = Int32, t_shape = [1, 33], t_elems = 1 # replicate 32 0\<rparr> 1 33 \<and>
   samples_to_decimal (\<lambda>a b z. if b = Int32 then of_int32 (to_int32 z) else z)
     (\<lambda>x d. Inl ValueError) \<lparr>b_dtype = Complex128\<rparr>
     (XTensor \<lparr>t_dtype = Int32, t_shape = [1, 33], t_elems = 1 # replicate 32 0\<rparr> :: unit cast_input)
     33
     = Inr \<lparr>t_dtype = Int32, t_shape = [1], t_elems = [0]\<rparr> \<and>
   samples_to_binary (\<lambda>a b z. if b = Int32 then of_int32 (to_int32 z) else z)
     (\<lambda>x d. Inl ValueError) \<lparr>b_dtype = Complex128\<rparr>
     (XTensor \<lparr>t_dtype = Int32, t_shape = [1], t_elems = [0]\<rparr> :: unit cast_input) 33
     = Inr \<lparr>t_dtype = Int32, t_shape = [1, 33], t_elems = replicate 33 0\<rparr> \<and>
   samples_to_decimal (\<lambda>a b z. if b = Int32 then of_int32 (to_int32 z) else z)
     (\<lambda>x d. Inl ValueError) \<lparr>b_dtype = Complex128\<rparr>
     (XList [ETensor \<lparr>t_dtype = Int64, t_shape = [2], t_elems = [1, 0]\<rparr>,
             ETensor \<lparr>t_dtype = Int64, t_shape = [2], t_elems = [0, 1]\<rparr>] :: unit cast_input) 2
     = Inl RuntimeError"
proof -
  let ?conv = "\<lambda>(a::dtype) (b::dtype) (z::complex). if b = Int32 then of_int32 (to_int32 z) else z"
  let ?parse = "\<lambda>(x::unit cast_input) (d::dtype). Inl ValueError :: error + nat list \<times> complex list"
  let ?self = "\<lparr>b_dtype = Complex128\<rparr>"
  let ?t32 = "\<lparr>t_dtype = Int32, t_shape = [1, 32], t_elems = 1 # replicate 31 0\<rparr>"
  let ?t33 = "\<lparr>t_dtype = Int32, t_shape = [1, 33], t_elems = 1 # replicate 32 0\<rparr>"
  have b32: "is_bit_matrix ?t32 1 32" by (simp add: is_bit_matrix_def)
  have b33: "is_bit_matrix ?t33 1 33" by (simp add: is_bit_matrix_def)
  have d32: "samples_to_decimal ?conv ?parse ?self (XTensor ?t32) 32
      = Inr \<lparr>t_dtype = Int32, t_shape = [1], t_elems = [- 2147483648]\<rparr>"
    using decimal_of_leading_one [of 32 31 ?conv ?parse ?self] by (simp add: of_int32_wraps)
  have d33: "samples_to_decimal ?conv ?parse ?self (XTensor ?t33) 33
      = Inr \<lparr>t_dtype = Int32, t_shape = [1], t_elems = [0]\<rparr>"
    using decimal_of_leading_one [of 33 32 ?conv ?parse ?self] by (simp add: of_int32_wraps)
  have v32: "row_values ?t32 1 32 = [2147483648]"
    by (simp add: row_values_def int_row_leading_one base2_value_leading_one)
  have bin33: "samples_to_binary ?conv ?parse ?self
      (XTensor \<lparr>t_dtype = Int32, t_shape = [1], t_elems = [0]\<rparr>) 33
      = Inr \<lparr>t_dtype = Int32, t_shape = [1, 33], t_elems = replicate 33 0\<rparr>"
  proof -
    have z: "of_int32 0 = 0" by (simp add: of_int32_def)
    have "map (shift_mod2 0) (map word_of_nat (rev [0..<33]) :: int32 list) = replicate 33 0"
      by (simp only: shift_mod2_zero [abs_def] map_replicate_const) simp
    then show ?thesis
      using samples_to_binary_words [of 33 "[0]" 1 ?conv ?parse ?self]
      by (simp add: z)
  qed
  have bin32: "samples_to_binary ?conv ?parse ?self
      (XTensor \<lparr>t_dtype = Int64, t_shape = [1], t_elems = [2147483648]\<rparr>) 32 = Inr ?t32"
  proof -
    have c: "cast ?conv ?parse ?self
        (XTensor \<lparr>t_dtype = Int64, t_shape = [1], t_elems = [2147483648]\<rparr>)
        (DOther ''int32'') False
        = Inr \<lparr>t_dtype = Int32, t_shape = [1],
               t_elems = map of_int32 [word_of_int (2 ^ 31)]\<rparr>"
      by (simp add: cast_def dict_lookup_def torch_dtype_dict_def tensor_to_def to_int32_def)
    have r: "map (shift_mod2 (word_of_int (base2_value (int_row (1 # replicate 31 0)))))
        (map word_of_nat (rev [0..<32])) = 1 # replicate 31 0"
      by (rule row_from_word) simp_all
    have "map (shift_mod2 (word_of_int (2 ^ 31))) (map word_of_nat (rev [0..<32]))
        = 1 # replicate 31 0"
      using r by (simp only: int_row_leading_one base2_value_leading_one)
    then show ?thesis
      using samples_to_binary_cast [OF c, of 32] by simp
  qed
  have lst: "samples_to_decimal ?conv ?parse ?self
      (XList [ETensor \<lparr>t_dtype = Int64, t_shape = [2], t_elems = [1, 0]\<rparr>,
              ETensor \<lparr>t_dtype = Int64, t_shape = [2], t_elems = [0, 1]\<rparr>]) 2
      = Inl RuntimeError"
    by (simp add: samples_to_decimal_def cast_def dict_lookup_def torch_dtype_dict_def
        stack_def promote_types_def tensor_to_def arange_desc_def matmul_col_def)
  from b32 d32 v32 bin32 b33 d33 bin33 lst show ?thesis by blast
qed

section \<open>Properties of the cast\<close>

lemma promote_types_idem: "promote_types d d = d"
  by (cases d) (simp_all add: promote_types_def)

lemma foldl_promote_same:
  "\<forall>x \<in> set ds. x = d \<Longrightarrow> foldl promote_types d ds = d"
  by (induction ds) (simp_all add: promote_types_idem)

lemma stack_dtype:
  assumes "stack conv ts = Inr r"
  shows "\<exists>t rest. ts = t # rest \<and> t_dtype r = foldl promote_types (t_dtype t) (map t_dtype rest)"
  using assms by (auto simp add: stack_def Let_def split: list.splits if_splits)

lemma stack_common_dtype:
  assumes "stack conv ts = Inr r" and "\<forall>t \<in> set ts. t_dtype t = d0"
  shows "t_dtype r = d0"
proof -
  obtain t rest where ts: "ts = t # rest"
    and r: "t_dtype r = foldl promote_types (t_dtype t) (map t_dtype rest)"
    using stack_dtype [OF assms(1)] by blast
  have "t_dtype t = d0" and "\<forall>x \<in> set (map t_dtype rest). x = d0"
    using assms(2) ts by auto
  then show ?thesis using r by (simp add: foldl_promote_same)
qed

lemma tensor_to_dtype: "t_dtype (tensor_to conv t d) = d"
  by (simp add: tensor_to_def)

lemma torch_tensor_dtype: "torch_tensor parse x d = Inr r \<Longrightarrow> t_dtype r = d"
  by (auto simp add: torch_tensor_def split: sum.splits)

lemma cast_tensor_list:
  assumes "resolve_dtype self dtype = Inr d" and "list_all is_tensor es"
  shows "cast conv parse self (XList es) dtype copy = stack conv (the_tensors es)"
  using assms by (simp add: cast_def clone_def split: sum.splits)

lemma cast_single_tensor:
  assumes "resolve_dtype self dtype = Inr d"
  shows "cast conv parse self (XTensor t) dtype copy = Inr (tensor_to conv t d)"
  using assms by (simp add: cast_def clone_def)

lemma cast_other_dtype:
  assumes "resolve_dtype self dtype = Inr d" and "\<not> is_tensor_list x"
    and "cast conv parse self x dtype copy = Inr r"
  shows "t_dtype r = d"
proof (cases x)
  case (XTensor t)
  then show ?thesis using assms cast_single_tensor [OF assms(1), of conv parse t copy]
    by (auto simp add: tensor_to_dtype)
next
  case (XList es)
  then have "torch_tensor parse x d = Inr r"
    using assms by (simp add: cast_def clone_def split: sum.splits if_splits)
  then show ?thesis by (rule torch_tensor_dtype)
next
  case (XOther y)
  then have "torch_tensor parse x d = Inr r"
    using assms by (simp add: cast_def clone_def split: sum.splits if_splits)
  then show ?thesis by (rule torch_tensor_dtype)
qed

text \<open>
  Claim C9. For a dtype argument that \<open>cast\<close> resolves to the dtype \<open>d\<close>: on a list whose
  elements are all tensors, \<open>cast\<close> returns \<open>torch.stack\<close> of the list, whatever \<open>d\<close>
  is, and the result has the dtype that the elements share; on a single tensor and on an
  input that is no list of tensors the result has the dtype \<open>d\<close>. The dtype argument
  \<open>None\<close> resolves to the default dtype of the backend.
\<close>

theorem cast_dtype:
  "resolve_dtype self dtype = Inr d \<Longrightarrow>
   (list_all is_tensor es \<longrightarrow>
      cast conv parse self (XList es) dtype copy = stack conv (the_tensors es) \<and>
      (\<forall>r. stack conv (the_tensors es) = Inr r \<and> (\<forall>t \<in> set (the_tensors es). t_dtype t = d0)
         \<longrightarrow> t_dtype r = d0)) \<and>
   cast conv parse self (XTensor t) dtype copy = Inr (tensor_to conv t d) \<and>
   t_dtype (tensor_to conv t d) = d \<and>
   (\<forall>r. \<not> is_tensor_list x \<and> cast conv parse self x dtype copy = Inr r \<longrightarrow> t_dtype r = d) \<and>
   resolve_dtype self DNone = Inr (b_dtype self)"
  using cast_tensor_list [of self dtype d es conv parse copy]
    cast_single_tensor [of self dtype d conv parse t copy]
    cast_other_dtype [of self dtype d x conv parse copy]
    stack_common_dtype [of conv "the_tensors es" _ d0]
  by (simp add: tensor_to_dtype)


text \<open>
  The theorem on a backend of default dtype \<open>complex128\<close> with the dtype argument
  \<open>"int32"\<close>: two \<open>float64\<close> tensors in a list are stacked into a \<open>float64\<close> tensor,
  a single \<open>float64\<close> tensor and a plain number become \<open>int32\<close> tensors.
\<close>

theorem cast_dtype_witness:
  "resolve_dtype \<lparr>b_dtype = Complex128\<rparr> (DOther ''int32'') = Inr Int32 \<and>
   list_all is_tensor
     [ETensor \<lparr>t_dtype = Float64, t_shape = [2], t_elems = [1, 2]\<rparr>,
      ETensor \<lparr>t_dtype = Float64, t_shape = [2], t_elems = [3, 4]\<rparr> :: unit elem] \<and>
   cast (\<lambda>a b z. z) (\<lambda>x d. Inr ([], [7])) \<lparr>b_dtype = Complex128\<rparr>
     (XList [ETensor \<lparr>t_dtype = Float64, t_shape = [2], t_elems = [1, 2]\<rparr>,
             ETensor \<lparr>t_dtype = Float64, t_shape = [2], t_elems = [3, 4]\<rparr> :: unit elem])
     (DOther ''int32'') False
     = Inr \<lparr>t_dtype = Float64, t_shape = [2, 2], t_elems = [1, 2, 3, 4]\<rparr> \<and>
   cast (\<lambda>a b z. z) (\<lambda>x d. Inr ([], [7])) \<lparr>b_dtype = Complex128\<rparr>
     (XTensor \<lparr>t_dtype = Float64, t_shape = [2], t_elems = [1, 2]\<rparr> :: unit cast_input)
     (DOther ''int32'') False
     = Inr \<lparr>t_dtype = Int32, t_shape = [2], t_elems = [1, 2]\<rparr> \<and>
   \<not> is_tensor_list (XOther () :: unit cast_input) \<and>
   cast (\<lambda>a b z. z) (\<lambda>x d. Inr ([], [7])) \<lparr>b_dtype = Complex128\<rparr>
     (XOther ()) (DOther ''int32'') False
     = Inr \<lparr>t_dtype = Int32, t_shape = [], t_elems = [7]\<rparr>"
proof -
  let ?self = "\<lparr>b_dtype = Complex128\<rparr>"
  let ?t1 = "\<lparr>t_dtype = Float64, t_shape = [2], t_elems = [1, 2]\<rparr>"
  let ?t2 = "\<lparr>t_dtype = Float64, t_shape = [2], t_elems = [3, 4]\<rparr>"
  let ?es = "[ETensor ?t1, ETensor ?t2 :: unit elem]"
  let ?conv = "\<lambda>(a::dtype) (b::dtype) (z::complex). z"
  let ?parse = "\<lambda>(x::unit cast_input) (d::dtype). Inr ([], [7]) :: error + nat list \<times> complex list"
  have h: "resolve_dtype ?self (DOther ''int32'') = Inr Int32"
    by (simp add: dict_lookup_def torch_dtype_dict_def)
  have l: "list_all is_tensor ?es" by simp
  have st: "stack ?conv (the_tensors ?es)
      = Inr \<lparr>t_dtype = Float64, t_shape = [2, 2], t_elems = [1, 2, 3, 4]\<rparr>"
    by (simp add: stack_def promote_types_def tensor_to_def)
  have o: "cast ?conv ?parse ?self (XOther ()) (DOther ''int32'') False
      = Inr \<lparr>t_dtype = Int32, t_shape = [], t_elems = [7]\<rparr>"
    by (simp add: cast_def dict_lookup_def torch_dtype_dict_def torch_tensor_def)
  have tt: "tensor_to ?conv ?t1 Int32 = \<lparr>t_dtype = Int32, t_shape = [2], t_elems = [1, 2]\<rparr>"
    by (simp add: tensor_to_def)
  from cast_dtype [OF h, of ?es ?conv ?parse False Float64 ?t1 "XOther ()"] l
  have "cast ?conv ?parse ?self (XList ?es) (DOther ''int32'') False
          = stack ?conv (the_tensors ?es)"
    and "cast ?conv ?parse ?self (XTensor ?t1) (DOther ''int32'') False
          = Inr (tensor_to ?conv ?t1 Int32)"
    by blast+
  then show ?thesis using h l o by (simp only: st tt) simp
qed

section \<open>Properties of the density-matrix norm\<close>

lemma cast_default_tensor:
  "cast conv parse self (XTensor m) DNone False = Inr (tensor_to conv m (b_dtype self))"
  by (simp add: cast_def)

lemma tensor_to_shape: "t_shape (tensor_to conv t d) = t_shape t"
  by (simp add: tensor_to_def)

lemma tensor_to_same: "t_dtype t = d \<Longrightarrow> tensor_to conv t d = t"
  by (simp add: tensor_to_def)

lemma trace_square: "t_shape t = [n, n] \<Longrightarrow> trace t = Inr (diagonal_sum t n)"
  by (simp add: trace_def diagonal_sum_def)

text \<open>
  Claim C10. For every square matrix \<open>m\<close>, \<open>calculate_norm_density_matrix\<close> with the
  order \<open>"nuc"\<close> (the default) returns the sum of the diagonal entries of \<open>m\<close> as cast to
  the dtype of the backend, without a call of \<open>torch.norm\<close>; with any other order it
  returns \<open>torch.norm\<close> of the cast matrix with that order. The cast leaves a matrix of
  the backend's dtype as it is.
\<close>

theorem norm_density_matrix_nuc_is_trace:
  "is_square_matrix m n \<Longrightarrow>
   calculate_norm_density_matrix conv parse tnorm self (XTensor m) (OrdStr ''nuc'')
     = Inr (diagonal_sum (tensor_to conv m (b_dtype self)) n) \<and>
   (order \<noteq> OrdStr ''nuc'' \<longrightarrow>
      calculate_norm_density_matrix conv parse tnorm self (XTensor m) order
        = tnorm (tensor_to conv m (b_dtype self)) order) \<and>
   (t_dtype m = b_dtype self \<longrightarrow> tensor_to conv m (b_dtype self) = m)"
  by (simp add: calculate_norm_density_matrix_def cast_default_tensor trace_square
      tensor_to_shape tensor_to_same is_square_matrix_def)

text \<open>
  The theorem on the matrix with the rows \<open>0, 1\<close> and \<open>1, - 1\<close>: the order \<open>"nuc"\<close> gives
  its trace \<open>- 1\<close>, a negative number and so no norm of the matrix.
\<close>

theorem norm_density_matrix_nuc_is_trace_witness:
  "is_square_matrix \<lparr>t_dtype = Complex128, t_shape = [2, 2], t_elems = [0, 1, 1, - 1]\<rparr> 2 \<and>
   calculate_norm_density_matrix (\<lambda>a b z. z) (\<lambda>x d. Inl ValueError) (\<lambda>t p. Inr 2)
     \<lparr>b_dtype = Complex128\<rparr>
     (XTensor \<lparr>t_dtype = Complex128, t_shape = [2, 2], t_elems = [0, 1, 1, - 1]\<rparr> :: unit cast_input)
     (OrdStr ''nuc'') = Inr (- 1) \<and>
   OrdStr ''fro'' \<noteq> OrdStr ''nuc'' \<and>
   calculate_norm_density_matrix (\<lambda>a b z. z) (\<lambda>x d. Inl ValueError) (\<lambda>t p. Inr 2)
     \<lparr>b_dtype = Complex128\<rparr>
     (XTensor \<lparr>t_dtype = Complex128, t_shape = [2, 2], t_elems = [0, 1, 1, - 1]\<rparr> :: unit cast_input)
     (OrdStr ''fro'') = Inr 2"
proof -
  let ?m = "\<lparr>t_dtype = Complex128, t_shape = [2, 2], t_elems = [0, 1, 1, - 1]\<rparr>"
  let ?self = "\<lparr>b_dtype = Complex128\<rparr>"
  let ?conv = "\<lambda>(a::dtype) (b::dtype) (z::complex). z"
  let ?parse = "\<lambda>(x::unit cast_input) (d::dtype). Inl ValueError :: error + nat list \<times> complex list"
  let ?tnorm = "\<lambda>(t::tensor) (p::order_arg). Inr 2 :: error + complex"
  have sq: "is_square_matrix ?m 2" by (simp add: is_square_matrix_def)
  have ne: "OrdStr ''fro'' \<noteq> OrdStr ''nuc''" by simp
  have same: "tensor_to ?conv ?m (b_dtype ?self) = ?m" by (simp add: tensor_to_def)
  have d: "diagonal_sum ?m 2 = - 1"
    by (simp add: diagonal_sum_def numeral_2_eq_2)
  from norm_density_matrix_nuc_is_trace [OF sq, of ?conv ?parse ?tnorm ?self "OrdStr ''fro''"] ne
  have "calculate_norm_density_matrix ?conv ?parse ?tnorm ?self (XTensor ?m) (OrdStr ''nuc'')
          = Inr (diagonal_sum (tensor_to ?conv ?m (b_dtype ?self)) 2)"
    and "calculate_norm_density_matrix ?conv ?parse ?tnorm ?self (XTensor ?m) (OrdStr ''fro'')
          = Inr 2"
    by blast+
  then show ?thesis using sq ne by (simp only: same d) simp
qed

section \<open>Properties of the gate product and of the fused gate\<close>

lemma matmul2_identity2: "matmul2 u identity2 = u"
  by (auto simp add: matmul2_def identity2_def fun_eq_iff)

lemma one_qubit_product_single: "one_qubit_product [One q u] = u"
  by (simp add: one_qubit_product_def matmul2_identity2)

text \<open>The model gives what \<open>test_from_queue_single_group\<close> and
  \<open>test_from_queue_two_groups\<close> assert, for any matrices of the gates.\<close>

lemma from_queue_single_group:
  "map (\<lambda>g. (gates0 g, gates1 g, two_qubit_gates g)) (from_queue [One 0 h, One 1 x, Two 0 1 cz])
     = [([[One 0 h], []], [[One 1 x], []], [Two 0 1 cz])]"
  by (simp add: new_group_def append_last_def commutes_def doubleton_eq_iff)

lemma from_queue_two_groups:
  "map (\<lambda>g. (gates0 g, gates1 g, two_qubit_gates g))
     (from_queue [One 0 x, One 1 h, Two 1 2 crx, One 2 h', One 1 y, One 0 h''])
     = [([[One 0 x, One 0 h'']], [[One 1 h]], []),
        ([[], [One 1 y]], [[], [One 2 h']], [Two 1 2 crx])]"
  by (simp add: new_group_def append_last_def commutes_def doubleton_eq_iff)

lemma from_queue_fused_example:
  "from_queue [H 0, H 1, CNOT 0 1, X 0, X 1] =
     [\<lparr>qubit0 = Some 0, qubit1 = Some 1, gates0 = [[H 0], [X 0]], gates1 = [[H 1], [X 1]],
       two_qubit_gates = [CNOT 0 1], special_gate = None, completed = True\<rparr>]"
  by (simp add: H_def X_def CNOT_def new_group_def append_last_def commutes_def doubleton_eq_iff)

lemma matmul4_assoc: "matmul4 (matmul4 a b) c = matmul4 a (matmul4 b c)"
  by (simp add: matmul4_def fun_eq_iff algebra_simps)

lemma kron_matmul: "matmul4 (kron a b) (kron c d) = kron (matmul2 a c) (matmul2 b d)"
  by (simp add: matmul4_def kron_def matmul2_def fun_eq_iff algebra_simps)

lemma matmul2_identity2_left: "matmul2 identity2 u = u"
  by (auto simp add: matmul2_def identity2_def fun_eq_iff)

text \<open>
  Claim C5. Fusing the queue \<open>H(0), H(1), CNOT(0, 1), X(0), X(1)\<close> gives one group, whose
  gates are one gate on the qubits 0 and 1 with the unitary
  \<open>kron(X, X) @ CNOT @ kron(H, H)\<close>; this is the product of the matrices of the five
  gates on the two qubits in reverse order of application. For two gates on the same
  qubits, the unitary of \<open>g1 @ g2\<close> is the matrix of \<open>g1\<close> times the matrix of \<open>g2\<close>.
\<close>

theorem fused_gate_calculation:
  "length (from_queue [H 0, H 1, CNOT 0 1, X 0, X 1]) = 1 \<and>
   map calculate (from_queue [H 0, H 1, CNOT 0 1, X 0, X 1]) =
     [[Two 0 1 (matmul4 (matmul4 (kron X_matrix X_matrix) CNOT_matrix)
                  (kron H_matrix H_matrix))]] \<and>
   matmul4 (matmul4 (kron X_matrix X_matrix) CNOT_matrix) (kron H_matrix H_matrix) =
     matmul4 (kron identity2 X_matrix) (matmul4 (kron X_matrix identity2)
       (matmul4 CNOT_matrix (matmul4 (kron identity2 H_matrix) (kron H_matrix identity2)))) \<and>
   gate_matmul special (One q u) (One q u') = Inr (One q (matmul2 u u')) \<and>
   gate_matmul special (Two a b v) (Two a b v') = Inr (Two a b (matmul4 v v'))"
proof -
  have c: "calculate \<lparr>qubit0 = Some 0, qubit1 = Some 1, gates0 = [[H 0], [X 0]],
       gates1 = [[H 1], [X 1]], two_qubit_gates = [CNOT 0 1], special_gate = None,
       completed = True\<rparr> =
     [Two 0 1 (matmul4 (matmul4 (kron X_matrix X_matrix) CNOT_matrix)
                  (kron H_matrix H_matrix))]"
    by (simp add: calculate_def H_def X_def CNOT_def one_qubit_product_single)
  have k: "matmul4 (kron identity2 X_matrix) (kron X_matrix identity2) = kron X_matrix X_matrix"
    "matmul4 (kron identity2 H_matrix) (kron H_matrix identity2) = kron H_matrix H_matrix"
    by (simp_all add: kron_matmul matmul2_identity2 matmul2_identity2_left)
  have e: "matmul4 (matmul4 (kron X_matrix X_matrix) CNOT_matrix) (kron H_matrix H_matrix) =
     matmul4 (kron identity2 X_matrix) (matmul4 (kron X_matrix identity2)
       (matmul4 CNOT_matrix (matmul4 (kron identity2 H_matrix) (kron H_matrix identity2))))"
    by (simp only: k matmul4_assoc [symmetric])
  have l: "length (from_queue [H 0, H 1, CNOT 0 1, X 0, X 1]) = 1"
    by (simp only: from_queue_fused_example) simp
  have m: "map calculate (from_queue [H 0, H 1, CNOT 0 1, X 0, X 1]) =
     [[Two 0 1 (matmul4 (matmul4 (kron X_matrix X_matrix) CNOT_matrix)
                  (kron H_matrix H_matrix))]]"
    by (simp only: from_queue_fused_example list.map c)
  have g: "gate_matmul special (One q u) (One q u') = Inr (One q (matmul2 u u'))"
    "gate_matmul special (Two a b v) (Two a b v') = Inr (Two a b (matmul4 v v'))"
    by simp_all
  from l m e g show ?thesis by blast
qed

lemma pair_groups:
  "concat (map group_gates (from_queue [g1, g2])) = [g1, g2] \<and>
   1 \<le> length (from_queue [g1, g2]) \<and> length (from_queue [g1, g2]) \<le> 2"
  by (cases g1; cases g2)
     (auto simp add: new_group_def append_last_def commutes_def group_gates_def
        doubleton_eq_iff)

lemma gate_matmul_same_qubits:
  "qubits g1 = qubits g2 \<Longrightarrow> qubits g1 \<noteq> [] \<Longrightarrow>
   \<exists>g. gate_matmul special g1 g2 = Inr g \<and> qubits g = qubits g1"
  by (cases g1; cases g2) auto

lemma gate_matmul_other_qubits:
  "qubits g1 \<noteq> qubits g2 \<Longrightarrow> gate_matmul special g1 g2 = Inl NotImplementedError"
  by (cases g1; cases g2) auto

text \<open>
  Claim C4, as amended. For every pair of gates, forming fusion groups from the pair
  succeeds whatever qubits the two gates act on: the groups, one or two, hold the two
  gates. Composing two gates that act on qubits with \<open>@\<close> succeeds when both act on the
  same qubits, and raises \<open>NotImplementedError\<close> when their qubits do not agree.
\<close>

theorem gate_merging:
  "(qubits g1 = qubits g2 \<and> qubits g1 \<noteq> [] \<longrightarrow>
      (\<exists>g. gate_matmul special g1 g2 = Inr g \<and> qubits g = qubits g1)) \<and>
   (qubits g1 \<noteq> qubits g2 \<longrightarrow> gate_matmul special g1 g2 = Inl NotImplementedError) \<and>
   concat (map group_gates (from_queue [g1, g2])) = [g1, g2] \<and>
   1 \<le> length (from_queue [g1, g2]) \<and> length (from_queue [g1, g2]) \<le> 2"
  using gate_matmul_same_qubits [of g1 g2 special] gate_matmul_other_qubits [of g1 g2 special]
    pair_groups [of g1 g2]
  by blast

text \<open>
  The theorem on \<open>X(0)\<close> and \<open>H(0)\<close>, which compose and share a group, on
  \<open>CNOT(0, 1)\<close> and \<open>CNOT(1, 0)\<close>, which do not compose, and on \<open>fSim(0, 1)\<close> and
  \<open>SWAP(0, 2)\<close>, which go to two groups.
\<close>

theorem gate_merging_witness:
  "qubits (X 0) = qubits (H 0) \<and> qubits (X 0) \<noteq> [] \<and>
   gate_matmul (\<lambda>k k'. Inl ValueError) (X 0) (H 0) = Inr (One 0 (matmul2 X_matrix H_matrix)) \<and>
   concat (map group_gates (from_queue [X 0, H 0])) = [X 0, H 0] \<and>
   length (from_queue [X 0, H 0]) = 1 \<and>
   qubits (CNOT 0 1) \<noteq> qubits (CNOT 1 0) \<and>
   gate_matmul (\<lambda>k k'. Inl ValueError) (CNOT 0 1) (CNOT 1 0) = Inl NotImplementedError \<and>
   qubits (fSim 0 1 (1234 / 10000) (5432 / 10000)) \<noteq> qubits (SWAP 0 2) \<and>
   concat (map group_gates (from_queue [fSim 0 1 (1234 / 10000) (5432 / 10000), SWAP 0 2]))
     = [fSim 0 1 (1234 / 10000) (5432 / 10000), SWAP 0 2] \<and>
   length (from_queue [fSim 0 1 (1234 / 10000) (5432 / 10000), SWAP 0 2]) = 2"
proof -
  have a: "qubits (X 0) = qubits (H 0)" "qubits (X 0) \<noteq> []"
    by (simp_all add: X_def H_def)
  have m: "gate_matmul (\<lambda>k k'. Inl ValueError) (X 0) (H 0)
      = Inr (One 0 (matmul2 X_matrix H_matrix))"
    by (simp add: X_def H_def)
  have l1: "length (from_queue [X 0, H 0]) = 1"
    by (simp add: X_def H_def new_group_def append_last_def commutes_def)
  have d: "qubits (fSim 0 1 (1234 / 10000) (5432 / 10000)) \<noteq> qubits (SWAP 0 2)"
    by (simp add: fSim_def SWAP_def)
  have l2: "length (from_queue [fSim 0 1 (1234 / 10000) (5432 / 10000), SWAP 0 2]) = 2"
    by (simp add: fSim_def SWAP_def new_group_def append_last_def commutes_def doubleton_eq_iff)
  have c: "qubits (CNOT 0 1) \<noteq> qubits (CNOT 1 0)" by (simp add: CNOT_def)
  from gate_merging [of "CNOT 0 1" "CNOT 1 0" "\<lambda>k k'. Inl ValueError"] c
  have r: "gate_matmul (\<lambda>k k'. Inl ValueError) (CNOT 0 1) (CNOT 1 0) = Inl NotImplementedError"
    by blast
  from gate_merging [of "X 0" "H 0" "\<lambda>k k'. Inl ValueError"]
    gate_merging [of "fSim 0 1 (1234 / 10000) (5432 / 10000)" "SWAP 0 2" "\<lambda>k k'. Inl ValueError"]
  have "concat (map group_gates (from_queue [X 0, H 0])) = [X 0, H 0]"
    and "concat (map group_gates
           (from_queue [fSim 0 1 (1234 / 10000) (5432 / 10000), SWAP 0 2]))
       = [fSim 0 1 (1234 / 10000) (5432 / 10000), SWAP 0 2]"
    by blast+
  with a m l1 c r d l2 show ?thesis by blast
qed

text \<open>
  Claim C4 as stated, that merging two gates never raises, fails on the pair of the test
  \<open>test_two_qubit_gate_multiplication\<close>: \<open>fSim(0, 1) @ SWAP(0, 2)\<close> raises
  \<open>NotImplementedError\<close>.
\<close>

theorem gate_matmul_raises_counterexample:
  "gate_matmul (\<lambda>k k'. Inl ValueError) (fSim 0 1 (1234 / 10000) (5432 / 10000)) (SWAP 0 2)
     = Inl NotImplementedError"
  by (simp add: fSim_def SWAP_def)

section \<open>The fused circuit computes what the circuit computes\<close>

lemma apply1_matmul2: "apply1 (matmul2 a c) q psi = apply1 a q (apply1 c q psi)"
  by (rule ext) (simp add: apply1_def matmul2_def algebra_simps)

lemma apply1_identity2: "apply1 identity2 q psi = psi"
proof (rule ext)
  fix b :: "nat \<Rightarrow> bool"
  have t: "b(q := b q) = b" by simp
  show "apply1 identity2 q psi b = psi b"
  proof (cases "b q")
    case True
    with t have "b(q := True) = b" by simp
    with True show ?thesis by (simp add: apply1_def identity2_def)
  next
    case False
    with t have "b(q := False) = b" by simp
    with False show ?thesis by (simp add: apply1_def identity2_def)
  qed
qed

lemma apply1_commute:
  "q \<noteq> q' \<Longrightarrow> apply1 u q (apply1 u' q' psi) = apply1 u' q' (apply1 u q psi)"
  by (rule ext) (simp add: apply1_def algebra_simps fun_upd_twist)

lemma apply2_matmul4:
  "q0 \<noteq> q1 \<Longrightarrow> apply2 (matmul4 a c) q0 q1 psi = apply2 a q0 q1 (apply2 c q0 q1 psi)"
  by (rule ext) (simp add: apply2_def matmul4_def algebra_simps)

lemma apply2_kron:
  "q0 \<noteq> q1 \<Longrightarrow> apply2 (kron u v) q0 q1 psi = apply1 u q0 (apply1 v q1 psi)"
  by (rule ext) (simp add: apply2_def kron_def apply1_def algebra_simps fun_upd_twist)

lemma apply2_swap_qubits:
  "q0 \<noteq> q1 \<Longrightarrow> apply2 (swap_qubits u) q0 q1 psi = apply2 u q1 q0 psi"
  by (rule ext) (simp add: apply2_def swap_qubits_def fun_upd_twist)

lemma apply1_apply2_commute:
  "q \<noteq> a \<Longrightarrow> q \<noteq> c \<Longrightarrow>
   apply1 u q (apply2 v a c psi) = apply2 v a c (apply1 u q psi)"
  by (rule ext) (simp add: apply1_def apply2_def algebra_simps fun_upd_twist)

lemma apply2_commute:
  "a \<noteq> a' \<Longrightarrow> a \<noteq> c' \<Longrightarrow> c \<noteq> a' \<Longrightarrow> c \<noteq> c' \<Longrightarrow>
   apply2 v a c (apply2 v' a' c' psi) = apply2 v' a' c' (apply2 v a c psi)"
  by (rule ext) (simp add: apply2_def algebra_simps fun_upd_twist)

lemma apply_gate_commute:
  "commutes g h \<Longrightarrow> apply_gate cb (apply_gate cb s g) h = apply_gate cb (apply_gate cb s h) g"
proof (cases s)
  case (Pair psi vals)
  assume c: "commutes g h"
  show ?thesis
  proof (cases g)
    case g: (One q u)
    show ?thesis
    proof (cases h)
      case (One q' u')
      with c g Pair show ?thesis by (simp add: commutes_def apply1_commute)
    next
      case (Two a' c' v')
      with c g Pair show ?thesis by (simp add: commutes_def apply1_apply2_commute)
    next
      case (CallbackGate k)
      with c show ?thesis by (simp add: commutes_def)
    qed
  next
    case g: (Two a c' v)
    show ?thesis
    proof (cases h)
      case (One q' u')
      with c g Pair show ?thesis by (simp add: commutes_def apply1_apply2_commute)
    next
      case (Two a' c'' v')
      with c g Pair show ?thesis by (simp add: commutes_def apply2_commute)
    next
      case (CallbackGate k)
      with c show ?thesis by (simp add: commutes_def)
    qed
  next
    case (CallbackGate k)
    with c show ?thesis by (simp add: commutes_def)
  qed
qed

lemma execute_append: "execute cb (xs @ ys) s = execute cb ys (execute cb xs s)"
  by (simp add: execute_def)

lemma execute_Cons: "execute cb (g # gs) s = execute cb gs (apply_gate cb s g)"
  by (simp add: execute_def)

lemma execute_Nil: "execute cb [] s = s"
  by (simp add: execute_def)

lemma execute_snoc: "execute cb (gs @ [g]) s = apply_gate cb (execute cb gs s) g"
  by (simp add: execute_def)

lemma execute_commute_past:
  "list_all (commutes g) bl \<Longrightarrow> execute cb (g # bl) s = execute cb (bl @ [g]) s"
proof (induction bl arbitrary: s)
  case Nil
  show ?case by simp
next
  case (Cons h bl)
  then have c: "commutes g h" and r: "list_all (commutes g) bl" by simp_all
  have "execute cb (g # h # bl) s = execute cb (g # bl) (apply_gate cb s h)"
    by (simp add: execute_Cons apply_gate_commute [OF c])
  also have "\<dots> = execute cb (bl @ [g]) (apply_gate cb s h)"
    by (rule Cons.IH [OF r])
  finally show ?case by (simp add: execute_Cons)
qed

lemma on_qubit_None: "list_all (on_qubit None) s \<longleftrightarrow> s = []"
  by (cases s) simp_all

lemma on_pair_None: "list_all (on_pair qo None) ts \<longleftrightarrow> ts = []"
proof (cases ts)
  case Nil then show ?thesis by simp
next
  case (Cons t ts')
  have "\<not> on_pair qo None t" by (cases qo; cases t) simp_all
  with Cons show ?thesis by simp
qed

lemma on_pair_None0: "list_all (on_pair None qo) ts \<longleftrightarrow> ts = []"
  by (cases ts) simp_all

lemma all_empty_None: "list_all (list_all (on_qubit None)) r \<Longrightarrow> list_all (list_all (on_qubit qo)) r"
  by (induction r) (simp_all add: on_qubit_None)

lemma on_qubit_commutes:
  "on_qubit (Some q1) h \<Longrightarrow> q \<noteq> q1 \<Longrightarrow> commutes (One q u) h"
  by (cases h) (simp_all add: commutes_def)

lemma list_on_qubit_commutes:
  "list_all (on_qubit qo) s \<Longrightarrow> qo \<noteq> Some q \<Longrightarrow> list_all (commutes (One q u)) s"
proof (cases qo)
  case None
  assume "list_all (on_qubit qo) s"
  with None show ?thesis by (simp add: on_qubit_None)
next
  case (Some q1)
  assume "list_all (on_qubit qo) s" and "qo \<noteq> Some q"
  with Some have "list_all (on_qubit (Some q1)) s" and ne: "q \<noteq> q1" by auto
  then show ?thesis
    by (induction s) (simp_all add: on_qubit_commutes [OF _ ne])
qed

lemma append_last_Cons: "r \<noteq> [] \<Longrightarrow> append_last (s # r) g = s # append_last r g"
  by (cases r) (simp_all add: append_last_def)

lemma append_last_single: "append_last [s] g = [s @ [g]]"
  by (simp add: append_last_def)

lemma length_append_last: "r \<noteq> [] \<Longrightarrow> length (append_last r g) = length r"
  by (cases r) (simp_all add: append_last_def)

lemma list_all_append_last:
  "r \<noteq> [] \<Longrightarrow> list_all (list_all P) (append_last r g) \<longleftrightarrow> list_all (list_all P) r \<and> P g"
proof (induction r)
  case Nil then show ?case by simp
next
  case (Cons s r)
  show ?case
  proof (cases "r = []")
    case True then show ?thesis by (auto simp add: append_last_single)
  next
    case False
    with Cons.IH show ?thesis by (auto simp add: append_last_Cons)
  qed
qed

lemma rest_gates_append_last0:
  "length r0 = length ts \<Longrightarrow> length r1 = length ts \<Longrightarrow> ts \<noteq> [] \<Longrightarrow>
   list_all (commutes g) (last r1) \<Longrightarrow>
   execute cb (rest_gates (append_last r0 g) r1 ts) s
     = apply_gate cb (execute cb (rest_gates r0 r1 ts) s) g"
proof (induction r0 r1 ts arbitrary: s rule: rest_gates.induct)
  case (1 s0 r0 s1 r1 t ts)
  show ?case
  proof (cases "ts = []")
    case True
    with "1.prems" have e: "r0 = []" "r1 = []" by simp_all
    have c: "list_all (commutes g) s1" using "1.prems" e by simp
    have "execute cb (t # (s0 @ [g]) @ s1) s = execute cb (t # s0 @ s1 @ [g]) s"
      using execute_commute_past [OF c, of cb]
      by (simp add: execute_Cons execute_append)
    then show ?thesis
      using e True by (simp add: append_last_single execute_Cons execute_append execute_Nil)
  next
    case False
    with "1.prems" have ne: "r0 \<noteq> []" "r1 \<noteq> []" by auto
    have l: "list_all (commutes g) (last r1)" using "1.prems" ne by simp
    have "execute cb (rest_gates (append_last r0 g) r1 ts) s'
        = apply_gate cb (execute cb (rest_gates r0 r1 ts) s') g" for s'
      using "1.IH" [of s'] "1.prems" False l by simp
    then show ?thesis
      using ne by (simp add: append_last_Cons execute_Cons execute_append)
  qed
qed simp_all

lemma rest_gates_append_last1:
  "length r0 = length ts \<Longrightarrow> length r1 = length ts \<Longrightarrow> ts \<noteq> [] \<Longrightarrow>
   rest_gates r0 (append_last r1 g) ts = rest_gates r0 r1 ts @ [g]"
proof (induction r0 r1 ts rule: rest_gates.induct)
  case (1 s0 r0 s1 r1 t ts)
  show ?case
  proof (cases "ts = []")
    case True
    with "1.prems" have e: "r0 = []" "r1 = []" by simp_all
    then show ?thesis using True by (simp add: append_last_single)
  next
    case False
    with "1.prems" have ne: "r0 \<noteq> []" "r1 \<noteq> []" by auto
    then show ?thesis using "1.IH" "1.prems" False by (simp add: append_last_Cons)
  qed
qed simp_all

lemma rest_gates_snoc:
  "length r0 = length ts \<Longrightarrow> length r1 = length ts \<Longrightarrow>
   rest_gates (r0 @ [[]]) (r1 @ [[]]) (ts @ [t]) = rest_gates r0 r1 ts @ [t]"
proof (induction r0 r1 ts rule: rest_gates.induct)
  case (1 s0 r0 s1 r1 t' ts)
  then show ?case by simp
qed simp_all

lemma group_gates_plain:
  "special_gate grp = None \<Longrightarrow> gates0 grp = s0 # r0 \<Longrightarrow> gates1 grp = s1 # r1 \<Longrightarrow>
   group_gates grp = s0 @ s1 @ rest_gates r0 r1 (two_qubit_gates grp)"
  by (simp add: group_gates_def)

lemma add_callback:
  assumes a: "add grp (CallbackGate k) = Some grp'" and inv: "group_inv grp"
  shows "group_inv grp'"
    and "execute cb (group_gates grp') s = apply_gate cb (execute cb (group_gates grp) s) (CallbackGate k)"
proof -
  from a have c: "\<not> completed grp" "qubit0 grp = None" "special_gate grp = None"
    and g: "grp' = grp\<lparr>special_gate := Some (CallbackGate k), completed := True\<rparr>"
    by (auto split: if_splits)
  from inv c have q1: "qubit1 grp = None"
    and two: "two_qubit_gates grp = []"
    and l: "length (gates0 grp) = Suc (length (two_qubit_gates grp))"
           "length (gates1 grp) = Suc (length (two_qubit_gates grp))"
    and e0: "list_all (list_all (on_qubit None)) (gates0 grp)"
    by (simp_all add: group_inv_def on_pair_None0)
  from inv c q1 have e1: "list_all (list_all (on_qubit None)) (gates1 grp)"
    by (simp add: group_inv_def)
  from l two e0 have g0: "gates0 grp = [[]]"
    by (cases "gates0 grp") (simp_all add: on_qubit_None)
  from l two e1 have g1: "gates1 grp = [[]]"
    by (cases "gates1 grp") (simp_all add: on_qubit_None)
  show "group_inv grp'" using g by (simp add: group_inv_def)
  have "group_gates grp = []" using c g0 g1 two by (simp add: group_gates_def)
  moreover have "group_gates grp' = [CallbackGate k]" using g by (simp add: group_gates_def)
  ultimately show "execute cb (group_gates grp') s
      = apply_gate cb (execute cb (group_gates grp) s) (CallbackGate k)"
    by (simp add: execute_Cons execute_Nil)
qed

lemma inv_special_None:
  "group_inv grp \<Longrightarrow> \<not> completed grp \<Longrightarrow> special_gate grp = None"
  by (cases "special_gate grp") (simp_all add: group_inv_def)

lemma inv_fields:
  assumes "group_inv grp" and "special_gate grp = None"
  shows "length (gates0 grp) = Suc (length (two_qubit_gates grp))"
    and "length (gates1 grp) = Suc (length (two_qubit_gates grp))"
    and "list_all (list_all (on_qubit (qubit0 grp))) (gates0 grp)"
    and "list_all (list_all (on_qubit (qubit1 grp))) (gates1 grp)"
    and "list_all (on_pair (qubit0 grp) (qubit1 grp)) (two_qubit_gates grp)"
    and "qubit0 grp = None \<longrightarrow> qubit1 grp = None"
    and "qubit0 grp \<noteq> None \<longrightarrow> qubit0 grp \<noteq> qubit1 grp"
  using assms by (simp_all add: group_inv_def)

lemma inv_shape:
  assumes "group_inv grp" and "special_gate grp = None"
  obtains s0 r0 s1 r1 where "gates0 grp = s0 # r0" and "gates1 grp = s1 # r1"
    and "length r0 = length (two_qubit_gates grp)" and "length r1 = length (two_qubit_gates grp)"
proof -
  from inv_fields(1,2) [OF assms]
  obtain s0 r0 s1 r1 where "gates0 grp = s0 # r0" "gates1 grp = s1 # r1"
    by (cases "gates0 grp"; cases "gates1 grp") auto
  moreover with inv_fields(1,2) [OF assms]
  have "length r0 = length (two_qubit_gates grp)" "length r1 = length (two_qubit_gates grp)"
    by simp_all
  ultimately show ?thesis using that by blast
qed

lemma add_one_first:
  assumes inv: "group_inv grp" and sp: "special_gate grp = None"
    and q: "qubit0 grp = None \<or> qubit0 grp = Some q"
    and g: "grp' = grp\<lparr>qubit0 := Some q, gates0 := append_last (gates0 grp) (One q u)\<rparr>"
  shows "group_inv grp'"
    and "execute cb (group_gates grp') s = apply_gate cb (execute cb (group_gates grp) s) (One q u)"
proof -
  note f = inv_fields [OF inv sp]
  obtain s0 r0 s1 r1 where sh: "gates0 grp = s0 # r0" "gates1 grp = s1 # r1"
    and len: "length r0 = length (two_qubit_gates grp)" "length r1 = length (two_qubit_gates grp)"
    by (rule inv_shape [OF inv sp])
  have ne: "gates0 grp \<noteq> []" using sh by simp
  have o0: "list_all (list_all (on_qubit (Some q))) (gates0 grp)"
    using q f(3) by (auto intro: all_empty_None)
  have q1: "qubit1 grp \<noteq> Some q" using q f(6,7) by auto
  have p: "list_all (on_pair (Some q) (qubit1 grp)) (two_qubit_gates grp)"
  proof (cases "qubit0 grp")
    case None
    with f(5) show ?thesis by (simp add: on_pair_None0)
  next
    case (Some a)
    with q f(5) show ?thesis by simp
  qed
  show "group_inv grp'"
    using g sp f(1,2,4) o0 q1 p ne
    by (auto simp add: group_inv_def length_append_last list_all_append_last)
  have c: "list_all (commutes (One q u)) (last (gates1 grp))"
  proof -
    have "list_all (on_qubit (qubit1 grp)) (last (gates1 grp))"
      using f(4) sh by (metis last_in_set list.distinct(1) list_all_iff)
    then show ?thesis using q1 by (rule list_on_qubit_commutes)
  qed
  show "execute cb (group_gates grp') s = apply_gate cb (execute cb (group_gates grp) s) (One q u)"
  proof (cases "two_qubit_gates grp = []")
    case True
    with len have e: "r0 = []" "r1 = []" by simp_all
    have c1: "list_all (commutes (One q u)) s1" using c sh e by simp
    have gg: "group_gates grp = s0 @ s1" "group_gates grp' = s0 @ One q u # s1"
      using sh e sp g True by (simp_all add: group_gates_def append_last_single)
    show ?thesis
      using execute_commute_past [OF c1, of cb]
      by (simp add: gg execute_append execute_Cons execute_Nil)
  next
    case False
    with len have ne0: "r0 \<noteq> []" "r1 \<noteq> []" by auto
    have c1: "list_all (commutes (One q u)) (last r1)" using c sh ne0 by simp
    have gg: "group_gates grp = s0 @ s1 @ rest_gates r0 r1 (two_qubit_gates grp)"
      "group_gates grp' = s0 @ s1 @ rest_gates (append_last r0 (One q u)) r1 (two_qubit_gates grp)"
      using sh sp g ne0 by (simp_all add: group_gates_def append_last_Cons)
    show ?thesis
      by (simp add: gg execute_append rest_gates_append_last0 [OF len False c1])
  qed
qed


lemma add_one_second:
  assumes inv: "group_inv grp" and sp: "special_gate grp = None"
    and q0: "qubit0 grp \<noteq> None" "qubit0 grp \<noteq> Some q"
    and q: "qubit1 grp = None \<or> qubit1 grp = Some q"
    and g: "grp' = grp\<lparr>qubit1 := Some q, gates1 := append_last (gates1 grp) (One q u)\<rparr>"
  shows "group_inv grp'"
    and "execute cb (group_gates grp') s = apply_gate cb (execute cb (group_gates grp) s) (One q u)"
proof -
  note f = inv_fields [OF inv sp]
  obtain s0 r0 s1 r1 where sh: "gates0 grp = s0 # r0" "gates1 grp = s1 # r1"
    and len: "length r0 = length (two_qubit_gates grp)" "length r1 = length (two_qubit_gates grp)"
    by (rule inv_shape [OF inv sp])
  have ne: "gates1 grp \<noteq> []" using sh by simp
  have o1: "list_all (list_all (on_qubit (Some q))) (gates1 grp)"
    using q f(4) by (auto intro: all_empty_None)
  have p: "list_all (on_pair (qubit0 grp) (Some q)) (two_qubit_gates grp)"
  proof (cases "qubit1 grp")
    case None
    with f(5) show ?thesis by (simp add: on_pair_None)
  next
    case (Some a)
    with q f(5) show ?thesis by simp
  qed
  show "group_inv grp'"
    using g sp f(1,2,3) o1 q0 p ne
    by (auto simp add: group_inv_def length_append_last list_all_append_last)
  show "execute cb (group_gates grp') s = apply_gate cb (execute cb (group_gates grp) s) (One q u)"
  proof (cases "two_qubit_gates grp = []")
    case True
    with len have e: "r0 = []" "r1 = []" by simp_all
    have gg: "group_gates grp = s0 @ s1" "group_gates grp' = s0 @ s1 @ [One q u]"
      using sh e sp g True by (simp_all add: group_gates_def append_last_single)
    show ?thesis by (simp add: gg execute_append execute_Cons execute_Nil)
  next
    case False
    with len have ne0: "r0 \<noteq> []" "r1 \<noteq> []" by auto
    have gg: "group_gates grp = s0 @ s1 @ rest_gates r0 r1 (two_qubit_gates grp)"
      "group_gates grp' = s0 @ s1 @ rest_gates r0 (append_last r1 (One q u)) (two_qubit_gates grp)"
      using sh sp g ne0 by (simp_all add: group_gates_def append_last_Cons)
    show ?thesis
      by (simp add: gg execute_append rest_gates_append_last1 [OF len False] execute_Cons execute_Nil)
  qed
qed

lemma add_two_fields:
  assumes inv: "group_inv grp" and sp: "special_gate grp = None"
    and ab: "a \<noteq> b" and pr: "(a = q0 \<and> b = q1) \<or> (a = q1 \<and> b = q0)"
    and c0: "qubit0 grp = None \<or> qubit0 grp = Some q0"
    and c1: "qubit1 grp = None \<or> qubit1 grp = Some q1"
    and g: "grp' = grp\<lparr>qubit0 := Some q0, qubit1 := Some q1,
              gates0 := gates0 grp @ [[]], gates1 := gates1 grp @ [[]],
              two_qubit_gates := two_qubit_gates grp @ [Two a b u]\<rparr>"
  shows "group_inv grp'"
    and "execute cb (group_gates grp') s = apply_gate cb (execute cb (group_gates grp) s) (Two a b u)"
proof -
  note f = inv_fields [OF inv sp]
  obtain s0 r0 s1 r1 where sh: "gates0 grp = s0 # r0" "gates1 grp = s1 # r1"
    and len: "length r0 = length (two_qubit_gates grp)" "length r1 = length (two_qubit_gates grp)"
    by (rule inv_shape [OF inv sp])
  have o0: "list_all (list_all (on_qubit (Some q0))) (gates0 grp)"
    using c0 f(3) by (auto intro: all_empty_None)
  have o1: "list_all (list_all (on_qubit (Some q1))) (gates1 grp)"
    using c1 f(4) by (auto intro: all_empty_None)
  have p: "list_all (on_pair (Some q0) (Some q1)) (two_qubit_gates grp)"
  proof (cases "qubit1 grp")
    case None
    with f(5) show ?thesis by (simp add: on_pair_None)
  next
    case (Some y)
    with c1 have "qubit1 grp = Some q1" by simp
    moreover from this f(6) c0 have "qubit0 grp = Some q0" by auto
    ultimately show ?thesis using f(5) by simp
  qed
  have ne: "q0 \<noteq> q1" using ab pr by auto
  show "group_inv grp'"
    using g sp f(1,2) o0 o1 p pr ne by (simp add: group_inv_def)
  have gg: "group_gates grp = s0 @ s1 @ rest_gates r0 r1 (two_qubit_gates grp)"
    "group_gates grp' = s0 @ s1 @ rest_gates (r0 @ [[]]) (r1 @ [[]]) (two_qubit_gates grp @ [Two a b u])"
    using sh sp g by (simp_all add: group_gates_def)
  show "execute cb (group_gates grp') s = apply_gate cb (execute cb (group_gates grp) s) (Two a b u)"
    by (simp add: gg execute_append rest_gates_snoc [OF len] execute_Cons execute_Nil)
qed

lemma add_sound:
  assumes a: "add grp g = Some grp'" and inv: "group_inv grp" and v: "valid_gate g"
  shows "group_inv grp' \<and>
         execute cb (group_gates grp') s = apply_gate cb (execute cb (group_gates grp) s) g"
proof (cases g)
  case (CallbackGate k)
  with a have a': "add grp (CallbackGate k) = Some grp'" by simp
  show ?thesis
    using add_callback(1) [OF a' inv] add_callback(2) [OF a' inv, of cb s] CallbackGate by simp
next
  case (One q u)
  from a One have nc: "\<not> completed grp" by (auto split: if_splits)
  have sp: "special_gate grp = None" by (rule inv_special_None [OF inv nc])
  show ?thesis
  proof (cases "qubit0 grp = None \<or> qubit0 grp = Some q")
    case True
    with a One nc
    have g: "grp' = grp\<lparr>qubit0 := Some q, gates0 := append_last (gates0 grp) (One q u)\<rparr>"
      by (auto split: if_splits)
    show ?thesis
      using add_one_first(1) [OF inv sp True g] add_one_first(2) [OF inv sp True g, of cb s] One
      by simp
  next
    case False
    with a One nc have q: "qubit1 grp = None \<or> qubit1 grp = Some q"
      and g: "grp' = grp\<lparr>qubit1 := Some q, gates1 := append_last (gates1 grp) (One q u)\<rparr>"
      by (auto split: if_splits)
    from False have q0: "qubit0 grp \<noteq> None" "qubit0 grp \<noteq> Some q" by auto
    show ?thesis
      using add_one_second(1) [OF inv sp q0 q g] add_one_second(2) [OF inv sp q0 q g, of cb s] One
      by simp
  qed
next
  case (Two a' b' u)
  from a Two have nc: "\<not> completed grp" by (auto split: if_splits)
  have sp: "special_gate grp = None" by (rule inv_special_None [OF inv nc])
  note f = inv_fields [OF inv sp]
  from v Two have ab: "a' \<noteq> b'" by simp
  let ?sel = "if qubit0 grp = None then Some (a', b')
               else if qubit1 grp = None then
                 (if qubit0 grp = Some a' then Some (a', b')
                  else if qubit0 grp = Some b' then Some (b', a')
                  else None)
               else Some (the (qubit0 grp), the (qubit1 grp))"
  from a Two nc obtain q0 q1 where sel: "?sel = Some (q0, q1)"
    and eq: "{q0, q1} = {a', b'}"
    and g: "grp' = grp\<lparr>qubit0 := Some q0, qubit1 := Some q1,
              gates0 := gates0 grp @ [[]], gates1 := gates1 grp @ [[]],
              two_qubit_gates := two_qubit_gates grp @ [Two a' b' u]\<rparr>"
    by (simp split: option.splits if_splits prod.splits)
  from eq have pr: "(a' = q0 \<and> b' = q1) \<or> (a' = q1 \<and> b' = q0)"
    by (auto simp add: doubleton_eq_iff)
  from sel f(6) have c0: "qubit0 grp = None \<or> qubit0 grp = Some q0"
    by (auto split: if_splits)
  from sel f(6) have c1: "qubit1 grp = None \<or> qubit1 grp = Some q1"
    by (auto split: if_splits)
  show ?thesis
    using add_two_fields(1) [OF inv sp ab pr c0 c1 g]
      add_two_fields(2) [OF inv sp ab pr c0 c1 g, of cb s] Two
    by simp
qed

lemma group_inv_new: "group_inv new_group"
  by (simp add: group_inv_def new_group_def)

lemma group_gates_new: "group_gates new_group = []"
  by (simp add: group_gates_def new_group_def)

lemma fill_sound:
  "group_inv grp \<Longrightarrow> list_all valid_gate xs \<Longrightarrow> fill grp bl xs = (grp', bl') \<Longrightarrow>
   group_inv grp' \<and> set bl' \<subseteq> set bl \<union> set xs \<and>
   (\<forall>s. execute cb (group_gates grp' @ bl') s = execute cb (group_gates grp @ bl @ xs) s)"
proof (induction xs arbitrary: grp bl)
  case Nil
  then show ?case by simp
next
  case (Cons g gs)
  from Cons.prems have v: "valid_gate g" and vs: "list_all valid_gate gs" by simp_all
  show ?case
  proof (cases "completed grp")
    case True
    with Cons.prems show ?thesis by auto
  next
    case nc: False
    show ?thesis
    proof (cases "list_all (commutes g) bl")
      case c: True
      show ?thesis
      proof (cases "add grp g")
        case None
        with nc c Cons.prems have "fill grp (bl @ [g]) gs = (grp', bl')" by simp
        from Cons.IH [OF Cons.prems(1) vs this] show ?thesis by auto
      next
        case (Some grp1)
        with nc c Cons.prems have fl: "fill grp1 bl gs = (grp', bl')" by simp
        have s1: "group_inv grp1"
          and e1: "\<And>s. execute cb (group_gates grp1) s
                     = apply_gate cb (execute cb (group_gates grp) s) g"
          using add_sound [OF Some Cons.prems(1) v, of cb] by auto
        from Cons.IH [OF s1 vs fl]
        have i: "group_inv grp'" and sub: "set bl' \<subseteq> set bl \<union> set gs"
          and e: "\<And>s. execute cb (group_gates grp' @ bl') s
                     = execute cb (group_gates grp1 @ bl @ gs) s"
          by auto
        have "execute cb (group_gates grp1 @ bl @ gs) s
            = execute cb (group_gates grp @ bl @ g # gs) s" for s
        proof -
          have "execute cb (bl @ [g]) t = execute cb (g # bl) t" for t
            using execute_commute_past [OF c, of cb t] by simp
          then show ?thesis
            by (simp add: execute_append e1 execute_Cons execute_Nil)
        qed
        with e i sub show ?thesis by auto
      qed
    next
      case False
      with nc Cons.prems have "fill grp (bl @ [g]) gs = (grp', bl')" by simp
      from Cons.IH [OF Cons.prems(1) vs this] show ?thesis by auto
    qed
  qed
qed

lemma group_gates_completed: "group_gates (grp\<lparr>completed := True\<rparr>) = group_gates grp"
  by (simp add: group_gates_def split: option.splits list.splits)

lemma group_inv_completed: "group_inv grp \<Longrightarrow> group_inv (grp\<lparr>completed := True\<rparr>)"
  by (simp add: group_inv_def split: option.splits)

lemma from_queue_sound:
  "list_all valid_gate queue \<Longrightarrow>
   list_all group_inv (from_queue queue) \<and>
   (\<forall>s. execute cb (concat (map group_gates (from_queue queue))) s = execute cb queue s)"
proof (induction queue rule: from_queue.induct)
  case 1
  show ?case by simp
next
  case (2 g gs)
  obtain grp remaining where f: "fill new_group [] (g # gs) = (grp, remaining)"
    by (cases "fill new_group [] (g # gs)") auto
  from fill_sound [OF group_inv_new "2.prems" f, of cb]
  have i: "group_inv grp" and sub: "set remaining \<subseteq> set (g # gs)"
    and e: "\<And>s. execute cb (group_gates grp @ remaining) s = execute cb (g # gs) s"
    by (auto simp add: group_gates_new)
  have vr: "list_all valid_gate remaining"
    using sub "2.prems" by (auto simp add: list_all_iff)
  from "2.IH" [OF f [symmetric] vr]
  have ir: "list_all group_inv (from_queue remaining)"
    and er: "\<And>s. execute cb (concat (map group_gates (from_queue remaining))) s
               = execute cb remaining s"
    by auto
  have fq: "from_queue (g # gs) = grp\<lparr>completed := True\<rparr> # from_queue remaining"
    using f by simp
  have "execute cb (concat (map group_gates (from_queue (g # gs)))) s = execute cb (g # gs) s" for s
  proof -
    have "concat (map group_gates (from_queue (g # gs)))
        = group_gates grp @ concat (map group_gates (from_queue remaining))"
      by (simp only: fq list.map concat.simps group_gates_completed)
    then have "execute cb (concat (map group_gates (from_queue (g # gs)))) s
        = execute cb remaining (execute cb (group_gates grp) s)"
      by (simp only: execute_append er)
    also have "\<dots> = execute cb (group_gates grp @ remaining) s"
      by (simp only: execute_append)
    finally show ?thesis by (simp only: e)
  qed
  moreover have "list_all group_inv (from_queue (g # gs))"
    using group_inv_completed [OF i] ir by (simp only: fq list.pred_inject)
  ultimately show ?case by blast
qed

lemma one_qubit_product_snoc:
  "one_qubit_product (gs @ [g]) = matmul2 (matrix1 g) (one_qubit_product gs)"
  by (simp add: one_qubit_product_def)

lemma one_qubit_product_sound:
  "list_all (on_qubit (Some q)) gs \<Longrightarrow>
   execute cb gs (psi, vals) = (apply1 (one_qubit_product gs) q psi, vals)"
proof (induction gs rule: rev_induct)
  case Nil
  show ?case by (simp add: execute_Nil one_qubit_product_def apply1_identity2)
next
  case (snoc g gs)
  then have g: "on_qubit (Some q) g" and gs: "list_all (on_qubit (Some q)) gs" by simp_all
  from g obtain u where u: "g = One q u" by (cases g) auto
  show ?case
    by (simp add: execute_snoc snoc.IH [OF gs] u one_qubit_product_snoc apply1_matmul2)
qed

lemma segment_sound:
  assumes "list_all (on_qubit (Some q0)) s0" and "list_all (on_qubit (Some q1)) s1"
    and "q0 \<noteq> q1"
  shows "execute cb (s0 @ s1) (psi, vals)
       = (apply2 (kron (one_qubit_product s0) (one_qubit_product s1)) q0 q1 psi, vals)"
proof -
  have "execute cb (s0 @ s1) (psi, vals)
      = (apply1 (one_qubit_product s1) q1 (apply1 (one_qubit_product s0) q0 psi), vals)"
    by (simp add: execute_append one_qubit_product_sound [OF assms(1)]
        one_qubit_product_sound [OF assms(2)])
  also have "apply1 (one_qubit_product s1) q1 (apply1 (one_qubit_product s0) q0 psi)
      = apply1 (one_qubit_product s0) q0 (apply1 (one_qubit_product s1) q1 psi)"
    using assms(3) by (simp add: apply1_commute)
  finally show ?thesis using assms(3) by (simp add: apply2_kron)
qed

lemma two_qubit_sound:
  assumes "on_pair (Some q0) (Some q1) t" and "q0 \<noteq> q1"
  shows "apply_gate cb (psi, vals) t = (apply2 (matrix2 q0 t) q0 q1 psi, vals)"
proof -
  from assms(1) obtain a b u where t: "t = Two a b u"
    and ab: "(a = q0 \<and> b = q1) \<or> (a = q1 \<and> b = q0)"
    by (cases t) auto
  from ab show ?thesis
  proof
    assume "a = q0 \<and> b = q1"
    then show ?thesis using t by simp
  next
    assume "a = q1 \<and> b = q0"
    then show ?thesis using t assms(2) by (simp add: apply2_swap_qubits)
  qed
qed

lemma fused_matrix_sound:
  "list_all (list_all (on_qubit (Some q0))) r0 \<Longrightarrow>
   list_all (list_all (on_qubit (Some q1))) r1 \<Longrightarrow>
   list_all (on_pair (Some q0) (Some q1)) ts \<Longrightarrow> q0 \<noteq> q1 \<Longrightarrow>
   execute cb (rest_gates r0 r1 ts) (apply2 m q0 q1 psi, vals)
     = (apply2 (fused_matrix q0 r0 r1 ts m) q0 q1 psi, vals)"
proof (induction r0 r1 ts arbitrary: m rule: rest_gates.induct)
  case (1 s0 r0 s1 r1 t ts)
  then have s: "list_all (on_qubit (Some q0)) s0" "list_all (on_qubit (Some q1)) s1"
    and r: "list_all (list_all (on_qubit (Some q0))) r0"
           "list_all (list_all (on_qubit (Some q1))) r1"
    and t: "on_pair (Some q0) (Some q1) t" and ts: "list_all (on_pair (Some q0) (Some q1)) ts"
    and ne: "q0 \<noteq> q1"
    by simp_all
  let ?k = "kron (one_qubit_product s0) (one_qubit_product s1)"
  let ?m = "matmul4 (matmul4 ?k (matrix2 q0 t)) m"
  have "execute cb (rest_gates (s0 # r0) (s1 # r1) (t # ts)) (apply2 m q0 q1 psi, vals)
      = execute cb (rest_gates r0 r1 ts)
          (execute cb (s0 @ s1) (apply_gate cb (apply2 m q0 q1 psi, vals) t))"
    by (simp add: execute_Cons execute_append)
  also have "apply_gate cb (apply2 m q0 q1 psi, vals) t
      = (apply2 (matrix2 q0 t) q0 q1 (apply2 m q0 q1 psi), vals)"
    by (rule two_qubit_sound [OF t ne])
  also have "execute cb (s0 @ s1) (apply2 (matrix2 q0 t) q0 q1 (apply2 m q0 q1 psi), vals)
      = (apply2 ?k q0 q1 (apply2 (matrix2 q0 t) q0 q1 (apply2 m q0 q1 psi)), vals)"
    by (rule segment_sound [OF s ne])
  also have "apply2 ?k q0 q1 (apply2 (matrix2 q0 t) q0 q1 (apply2 m q0 q1 psi))
      = apply2 ?m q0 q1 psi"
    using ne by (simp add: apply2_matmul4)
  also have "execute cb (rest_gates r0 r1 ts) (apply2 ?m q0 q1 psi, vals)
      = (apply2 (fused_matrix q0 r0 r1 ts ?m) q0 q1 psi, vals)"
    by (rule "1.IH" [OF r ts ne])
  finally show ?case by simp
qed (simp_all add: execute_Nil)

lemma calculate_sound:
  assumes inv: "group_inv grp"
  shows "execute cb (calculate grp) s = execute cb (group_gates grp) s"
proof (cases "special_gate grp")
  case (Some g)
  then show ?thesis by (simp add: calculate_def group_gates_def)
next
  case None
  note f = inv_fields [OF inv None]
  obtain s0 r0 s1 r1 where sh: "gates0 grp = s0 # r0" "gates1 grp = s1 # r1"
    and len: "length r0 = length (two_qubit_gates grp)" "length r1 = length (two_qubit_gates grp)"
    by (rule inv_shape [OF inv None])
  obtain psi vals where s: "s = (psi, vals)" by (cases s) auto
  have gg: "group_gates grp = s0 @ s1 @ rest_gates r0 r1 (two_qubit_gates grp)"
    by (rule group_gates_plain [OF None sh])
  show ?thesis
  proof (cases "qubit0 grp")
    case q0: None
    with f(6) have q1: "qubit1 grp = None" by simp
    from f(3,4,5) q0 q1 sh have "s0 = []" "s1 = []" "two_qubit_gates grp = []"
      by (simp_all add: on_qubit_None on_pair_None)
    then show ?thesis using q0 None gg by (simp add: calculate_def)
  next
    case q0: (Some a)
    show ?thesis
    proof (cases "qubit1 grp")
      case q1: None
      from f(4,5) q0 q1 sh have e: "s1 = []" "two_qubit_gates grp = []"
        by (simp_all add: on_qubit_None on_pair_None)
      with len have r: "r0 = []" "r1 = []" by simp_all
      have o: "list_all (on_qubit (Some a)) s0" using f(3) q0 sh by simp
      have c: "calculate grp = [One a (one_qubit_product s0)]"
        using None q0 q1 sh by (simp add: calculate_def)
      show ?thesis
        by (simp add: c gg e r s one_qubit_product_sound [OF o] execute_Cons execute_Nil)
    next
      case q1: (Some b)
      from f(7) q0 q1 have ne: "a \<noteq> b" by simp
      have o: "list_all (on_qubit (Some a)) s0" "list_all (on_qubit (Some b)) s1"
        and ro: "list_all (list_all (on_qubit (Some a))) r0"
                "list_all (list_all (on_qubit (Some b))) r1"
        and tp: "list_all (on_pair (Some a) (Some b)) (two_qubit_gates grp)"
        using f(3,4,5) q0 q1 sh by simp_all
      let ?k = "kron (one_qubit_product s0) (one_qubit_product s1)"
      have c: "calculate grp = [Two a b (fused_matrix a r0 r1 (two_qubit_gates grp) ?k)]"
        using None q0 q1 sh by (simp add: calculate_def)
      have "execute cb (group_gates grp) s
          = execute cb (rest_gates r0 r1 (two_qubit_gates grp)) (execute cb (s0 @ s1) s)"
        by (simp add: gg execute_append)
      also have "\<dots> = (apply2 (fused_matrix a r0 r1 (two_qubit_gates grp) ?k) a b psi, vals)"
        by (simp only: s segment_sound [OF o ne] fused_matrix_sound [OF ro tp ne])
      finally show ?thesis by (simp add: c s execute_Cons execute_Nil)
    qed
  qed
qed

lemma execute_concat_cong:
  "list_all (\<lambda>x. \<forall>s. execute cb (f x) s = execute cb (h x) s) xs \<Longrightarrow>
   execute cb (concat (map f xs)) s = execute cb (concat (map h xs)) s"
  by (induction xs arbitrary: s) (simp_all add: execute_append del: split_paired_All)

text \<open>
  Claim C1. For every circuit of one-qubit gates, two-qubit gates on two different
  qubits and callback gates, the fused circuit, executed on any state, ends in the same
  state vector as the circuit and records the same values of the callbacks.
\<close>

theorem fuse_preserves_execution:
  "list_all valid_gate circuit \<Longrightarrow> execute cb (fuse circuit) s = execute cb circuit s"
proof -
  assume v: "list_all valid_gate circuit"
  from from_queue_sound [OF v, of cb]
  have i: "list_all group_inv (from_queue circuit)"
    and e: "execute cb (concat (map group_gates (from_queue circuit))) s = execute cb circuit s"
    by blast+
  have "list_all (\<lambda>x. \<forall>s. execute cb (calculate x) s = execute cb (group_gates x) s)
      (from_queue circuit)"
    using i by (simp add: list_all_iff calculate_sound del: split_paired_All)
  then have "execute cb (fuse circuit) s
      = execute cb (concat (map group_gates (from_queue circuit))) s"
    unfolding fuse_def by (rule execute_concat_cong)
  with e show ?thesis by simp
qed

text \<open>
  The theorem on the circuit of \<open>test_fuse_with_callback\<close>, from the state with
  amplitude 1 on the assignment of 0 to every qubit. The fused circuit has four gates
  where the circuit has five.
\<close>

theorem fuse_preserves_execution_witness:
  "list_all valid_gate [H 0, X 1, CallbackGate 0, CNOT 0 1, CallbackGate 0] \<and>
   length (fuse [H 0, X 1, CallbackGate 0, CNOT 0 1, CallbackGate 0]) = 4 \<and>
   execute (\<lambda>k psi. cmod (psi (\<lambda>q. False)))
     (fuse [H 0, X 1, CallbackGate 0, CNOT 0 1, CallbackGate 0])
     (\<lambda>b. if b 0 \<or> b 1 then 0 else 1, []) =
   execute (\<lambda>k psi. cmod (psi (\<lambda>q. False)))
     [H 0, X 1, CallbackGate 0, CNOT 0 1, CallbackGate 0]
     (\<lambda>b. if b 0 \<or> b 1 then 0 else 1, [])"
proof -
  have v: "list_all valid_gate [H 0, X 1, CallbackGate 0, CNOT 0 1, CallbackGate 0]"
    by (simp add: H_def X_def CNOT_def)
  have l: "length (fuse [H 0, X 1, CallbackGate 0, CNOT 0 1, CallbackGate 0]) = 4"
    by (simp add: fuse_def calculate_def H_def X_def CNOT_def new_group_def append_last_def
        commutes_def doubleton_eq_iff)
  from v l fuse_preserves_execution [OF v] show ?thesis by blast
qed

end
